theory Spec2Isabelle
  imports Complex_Main "HOL-Library.Code_Target_Nat"
begin

section \<open>Python strings\<close>

text \<open>
  A Python \<^verbatim>\<open>str\<close> is a sequence of Unicode code points, and \<^verbatim>\<open>len\<close>, slicing and
  \<^verbatim>\<open>endswith\<close> count code points. The Turkish letters of the suffix tables lie outside
  ASCII, so a string is modelled as the list of its code points.
\<close>

type_synonym ustr = "nat list"

definition u :: "string \<Rightarrow> ustr" where
  \<comment> \<open>an ASCII literal\<close>
  "u cs = map of_char cs"

definition tr_char :: "char \<Rightarrow> nat" where
  "tr_char c =
     (if c = CHR ''I'' then 305 else if c = CHR ''U'' then 252
      else if c = CHR ''O'' then 246 else if c = CHR ''C'' then 231 else of_char c)"

definition tr :: "string \<Rightarrow> ustr" where
  \<comment> \<open>a lower-case Turkish literal, with the capitals I, U, O, C written for the letters
      U+0131 (dotless i), U+00FC (u diaeresis), U+00F6 (o diaeresis), U+00E7 (c cedilla)\<close>
  "tr cs = map tr_char cs"

definition endswith :: "ustr \<Rightarrow> ustr \<Rightarrow> bool" where
  \<comment> \<open>\<^verbatim>\<open>s.endswith(e)\<close>\<close>
  "endswith s e = (length e \<le> length s \<and> drop (length s - length e) s = e)"

definition cut_last :: "ustr \<Rightarrow> nat \<Rightarrow> ustr" where
  \<comment> \<open>\<^verbatim>\<open>s[:-n]\<close> for \<open>n > 0\<close>\<close>
  "cut_last s n = take (length s - n) s"

definition keep_last :: "ustr \<Rightarrow> nat \<Rightarrow> ustr" where
  \<comment> \<open>\<^verbatim>\<open>s[-n:]\<close> for \<open>n > 0\<close>\<close>
  "keep_last s n = drop (length s - n) s"

text \<open>
  The parts of Python's Unicode tables the pipeline reads: \<^verbatim>\<open>str.lower\<close>, and the
  character classes \<^verbatim>\<open>\w\<close>, \<^verbatim>\<open>\d\<close> and \<^verbatim>\<open>\s\<close> of \<^verbatim>\<open>re\<close> on \<^verbatim>\<open>str\<close> patterns (the last is
  also the whitespace of \<^verbatim>\<open>str.strip\<close>). They belong to the interpreter, not to the
  repository, and are parameters of the model.
\<close>

record unicode_db =
  str_lower :: "ustr \<Rightarrow> ustr"
  word_char :: "nat \<Rightarrow> bool"
  digit_char :: "nat \<Rightarrow> bool"
  space_char :: "nat \<Rightarrow> bool"

section \<open>Suffix tables\<close>

definition DERIV_SUFFIXES :: "(ustr \<times> string \<times> string) list" where
  "DERIV_SUFFIXES =
    [(tr ''lIk'', ''Deriv=LIK'', ''DerivPOS=NOUN''),
     (tr ''lik'', ''Deriv=LIK'', ''DerivPOS=NOUN''),
     (tr ''luk'', ''Deriv=LIK'', ''DerivPOS=NOUN''),
     (tr ''lUk'', ''Deriv=LIK'', ''DerivPOS=NOUN''),
     (tr ''sal'', ''Deriv=SAL'', ''DerivPOS=ADJ''),
     (tr ''sel'', ''Deriv=SAL'', ''DerivPOS=ADJ''),
     (tr ''li'', ''Deriv=LI'', ''DerivPOS=ADJ''),
     (tr ''lI'', ''Deriv=LI'', ''DerivPOS=ADJ''),
     (tr ''lu'', ''Deriv=LI'', ''DerivPOS=ADJ''),
     (tr ''lU'', ''Deriv=LI'', ''DerivPOS=ADJ''),
     (tr ''siz'', ''Deriv=SIZ'', ''DerivPOS=ADJ''),
     (tr ''suz'', ''Deriv=SIZ'', ''DerivPOS=ADJ''),
     (tr ''sUz'', ''Deriv=SIZ'', ''DerivPOS=ADJ''),
     (tr ''sIz'', ''Deriv=SIZ'', ''DerivPOS=ADJ''),
     (tr ''ci'', ''Deriv=CI'', ''DerivPOS=NOUN''),
     (tr ''cI'', ''Deriv=CI'', ''DerivPOS=NOUN''),
     (tr ''cu'', ''Deriv=CI'', ''DerivPOS=NOUN''),
     (tr ''cU'', ''Deriv=CI'', ''DerivPOS=NOUN''),
     (tr ''CI'', ''Deriv=CI'', ''DerivPOS=NOUN''),
     (tr ''Ci'', ''Deriv=CI'', ''DerivPOS=NOUN''),
     (tr ''Cu'', ''Deriv=CI'', ''DerivPOS=NOUN''),
     (tr ''CU'', ''Deriv=CI'', ''DerivPOS=NOUN'')]"

definition PLUR :: "(ustr \<times> string) list" where
  "PLUR = [(tr ''lar'', ''Number=Plur''), (tr ''ler'', ''Number=Plur'')]"

definition poss :: "string \<Rightarrow> string \<Rightarrow> string list" where
  \<comment> \<open>the tuple \<^verbatim>\<open>("Poss=Yes", "Person[psor]=p", "Number[psor]=n")\<close>\<close>
  "poss p n = [''Poss=Yes'', ''Person[psor]='' @ p, ''Number[psor]='' @ n]"

definition POSS_LONG :: "(ustr \<times> string list) list" where
  "POSS_LONG =
    [(tr ''ImIz'', poss ''1'' ''Plur''), (tr ''imiz'', poss ''1'' ''Plur''),
     (tr ''umuz'', poss ''1'' ''Plur''), (tr ''UmUz'', poss ''1'' ''Plur''),
     (tr ''InIz'', poss ''2'' ''Plur''), (tr ''iniz'', poss ''2'' ''Plur''),
     (tr ''unuz'', poss ''2'' ''Plur''), (tr ''UnUz'', poss ''2'' ''Plur''),
     (tr ''larI'', poss ''3'' ''Plur''), (tr ''leri'', poss ''3'' ''Plur'')]"

definition POSS_SHORT :: "(ustr \<times> string list) list" where
  "POSS_SHORT =
    [(tr ''Im'', poss ''1'' ''Sing''), (tr ''im'', poss ''1'' ''Sing''),
     (tr ''um'', poss ''1'' ''Sing''), (tr ''Um'', poss ''1'' ''Sing''),
     (tr ''In'', poss ''2'' ''Sing''), (tr ''in'', poss ''2'' ''Sing''),
     (tr ''un'', poss ''2'' ''Sing''), (tr ''Un'', poss ''2'' ''Sing''),
     (tr ''sI'', poss ''3'' ''Sing''), (tr ''si'', poss ''3'' ''Sing''),
     (tr ''su'', poss ''3'' ''Sing''), (tr ''sU'', poss ''3'' ''Sing''),
     (tr ''m'', poss ''1'' ''Sing''), (tr ''n'', poss ''2'' ''Sing'')]"

definition CASE_ENDINGS :: "(ustr \<times> string) list" where
  "CASE_ENDINGS =
    [(tr ''ndan'', ''Case=Abl''), (tr ''nden'', ''Case=Abl''),
     (tr ''dan'', ''Case=Abl''), (tr ''den'', ''Case=Abl''),
     (tr ''tan'', ''Case=Abl''), (tr ''ten'', ''Case=Abl''),
     (tr ''nda'', ''Case=Loc''), (tr ''nde'', ''Case=Loc''),
     (tr ''da'', ''Case=Loc''), (tr ''de'', ''Case=Loc''),
     (tr ''ta'', ''Case=Loc''), (tr ''te'', ''Case=Loc''),
     (tr ''nIn'', ''Case=Gen''), (tr ''nin'', ''Case=Gen''),
     (tr ''nun'', ''Case=Gen''), (tr ''nUn'', ''Case=Gen''),
     (tr ''In'', ''Case=Gen''), (tr ''in'', ''Case=Gen''),
     (tr ''un'', ''Case=Gen''), (tr ''Un'', ''Case=Gen''),
     (tr ''yla'', ''Case=Ins''), (tr ''yle'', ''Case=Ins''),
     (tr ''la'', ''Case=Ins''), (tr ''le'', ''Case=Ins''),
     (tr ''ca'', ''Case=Equ''), (tr ''ce'', ''Case=Equ''),
     (tr ''yI'', ''Case=Acc''), (tr ''yi'', ''Case=Acc''),
     (tr ''yu'', ''Case=Acc''), (tr ''yU'', ''Case=Acc''),
     (tr ''I'', ''Case=Acc''), (tr ''i'', ''Case=Acc''),
     (tr ''u'', ''Case=Acc''), (tr ''U'', ''Case=Acc''),
     (tr ''ya'', ''Case=Dat''), (tr ''ye'', ''Case=Dat''),
     (tr ''a'', ''Case=Dat''), (tr ''e'', ''Case=Dat'')]"

definition BUFFER_N_ACC :: "(ustr \<times> string) list" where
  "BUFFER_N_ACC =
    [(tr ''nI'', ''Case=Acc''), (tr ''ni'', ''Case=Acc''),
     (tr ''nu'', ''Case=Acc''), (tr ''nU'', ''Case=Acc'')]"

definition BUFFER_N_DAT :: "(ustr \<times> string) list" where
  "BUFFER_N_DAT = [(tr ''na'', ''Case=Dat''), (tr ''ne'', ''Case=Dat'')]"

definition by_len_desc :: "(ustr \<times> 'a) list \<Rightarrow> (ustr \<times> 'a) list" where
  \<comment> \<open>\<^verbatim>\<open>sorted(d.items(), key=lambda x: -len(x[0]))\<close>: a stable sort of the items, in
      the dictionary's insertion order, by decreasing key length\<close>
  "by_len_desc items = sort_key (\<lambda>x. - int (length (fst x))) items"

definition first_end :: "ustr \<Rightarrow> (ustr \<times> 'a) list \<Rightarrow> (ustr \<times> 'a) option" where
  \<comment> \<open>the \<^verbatim>\<open>for end, feat in ...: if s.endswith(end): ...; break\<close> scan: the first
      entry whose key ends \<open>s\<close>\<close>
  "first_end s items = find (\<lambda>x. endswith s (fst x)) items"

lemma first_end_Some:
  "first_end s items = Some x \<Longrightarrow> x \<in> set items \<and> endswith s (fst x)"
  by (auto simp: first_end_def find_Some_iff)

lemma set_by_len_desc: "set (by_len_desc items) = set items"
  by (simp add: by_len_desc_def)

lemma tr_nonempty: "tr (c # cs) \<noteq> []"
  by (simp add: tr_def)

lemma keys_nonempty:
  "\<forall>x \<in> set (BUFFER_N_ACC @ BUFFER_N_DAT). fst x \<noteq> []"
  "\<forall>x \<in> set CASE_ENDINGS. fst x \<noteq> []"
  "\<forall>x \<in> set POSS_LONG. fst x \<noteq> []"
  "\<forall>x \<in> set POSS_SHORT. fst x \<noteq> []"
  "\<forall>x \<in> set PLUR. fst x \<noteq> []"
  "\<forall>x \<in> set DERIV_SUFFIXES. fst x \<noteq> []"
  by (simp_all add: BUFFER_N_ACC_def BUFFER_N_DAT_def CASE_ENDINGS_def POSS_LONG_def
      POSS_SHORT_def PLUR_def DERIV_SUFFIXES_def tr_nonempty)

lemma cut_last_shorter: "s \<noteq> [] \<Longrightarrow> 0 < n \<Longrightarrow> length (cut_last s n) < length s"
  by (simp add: cut_last_def)

lemma first_end_shorter:
  assumes "first_end s (by_len_desc items) = Some (e, f)"
    and "\<forall>x \<in> set items. fst x \<noteq> []" and "s \<noteq> []"
  shows "length (cut_last s (length e)) < length s"
proof -
  from assms(1) have "(e, f) \<in> set items"
    using first_end_Some set_by_len_desc by fastforce
  with assms(2) have "e \<noteq> []" by fastforce
  with assms(3) show ?thesis by (simp add: cut_last_shorter)
qed

lemmas shorter =
  first_end_shorter [OF _ keys_nonempty(1)] first_end_shorter [OF _ keys_nonempty(2)]
  first_end_shorter [OF _ keys_nonempty(3)] first_end_shorter [OF _ keys_nonempty(4)]
  first_end_shorter [OF _ keys_nonempty(5)] first_end_shorter [OF _ keys_nonempty(6)]

section \<open>The suffix morphology parser\<close>

text \<open>
  The methods of \<^verbatim>\<open>Annotator\<close> keep their names without the leading underscore, and take
  \<open>self\<close> where they read a field of it.

  The four passes of \<^verbatim>\<open>_parse_tr_suffixes_full\<close>. Each \<^verbatim>\<open>while progressed and s\<close> loop
  is a recursive function on the remaining string \<open>s\<close>: an iteration that strips an ending
  recurses, one that strips nothing returns.
\<close>

function case_pass ::
  "ustr \<Rightarrow> ustr list \<Rightarrow> string set \<Rightarrow> ustr \<times> ustr list \<times> string set" where
  "case_pass s segments_rev ud =
     (if s = [] then (s, segments_rev, ud)
      else case first_end s (by_len_desc (BUFFER_N_ACC @ BUFFER_N_DAT)) of
        Some (e, feat) \<Rightarrow>
          case_pass (cut_last s (length e)) (segments_rev @ [keep_last s (length e)])
            (insert feat ud)
      | None \<Rightarrow>
         (case first_end s (by_len_desc CASE_ENDINGS) of
            Some (e, feat) \<Rightarrow>
              case_pass (cut_last s (length e)) (segments_rev @ [keep_last s (length e)])
                (insert feat ud)
          | None \<Rightarrow> (s, segments_rev, ud)))"
  by pat_completeness auto
termination
  by (relation "measure (\<lambda>(s, segments_rev, ud). length s)")
    (auto intro: shorter)

declare case_pass.simps [simp del]

definition BARE_VOWELS :: "ustr list" where
  \<comment> \<open>the list \<^verbatim>\<open>["\<dots>", "i", "u", "\<dots>"]\<close> of the possessive pass\<close>
  "BARE_VOWELS = [tr ''I'', tr ''i'', tr ''u'', tr ''U'']"

function poss_pass ::
  "ustr \<Rightarrow> ustr list \<Rightarrow> string set \<Rightarrow> string set
    \<Rightarrow> ustr \<times> ustr list \<times> string set \<times> string set" where
  "poss_pass s segments_rev ud amb =
     (if s = [] then (s, segments_rev, ud, amb)
      else case first_end s (by_len_desc POSS_LONG) of
        Some (e, feats) \<Rightarrow>
          poss_pass (cut_last s (length e)) (segments_rev @ [keep_last s (length e)])
            (ud \<union> set feats) amb
      | None \<Rightarrow>
         (case first_end s (by_len_desc POSS_SHORT) of
            Some (e, feats) \<Rightarrow>
              poss_pass (cut_last s (length e)) (segments_rev @ [keep_last s (length e)])
                (ud \<union> set feats) amb
          | None \<Rightarrow>
             (case find (\<lambda>e. endswith s e) BARE_VOWELS of
                Some e \<Rightarrow>
                  poss_pass (cut_last s 1) (segments_rev @ [e]) ud
                    (insert ''Amb=P3sg_or_Acc'' amb)
              | None \<Rightarrow> (s, segments_rev, ud, amb))))"
  by pat_completeness auto
termination
  by (relation "measure (\<lambda>(s, segments_rev, ud, amb). length s)")
    (auto intro: shorter cut_last_shorter)

declare poss_pass.simps [simp del]

definition plur_step ::
  "ustr \<Rightarrow> ustr list \<Rightarrow> string set \<Rightarrow> ustr \<times> ustr list \<times> string set" where
  "plur_step s segments_rev ud =
     (case first_end s (by_len_desc PLUR) of
        Some (e, feat) \<Rightarrow> (cut_last s (length e), segments_rev @ [e], insert feat ud)
      | None \<Rightarrow> (s, segments_rev, ud))"

function deriv_pass ::
  "ustr \<Rightarrow> ustr list \<Rightarrow> string set \<Rightarrow> ustr \<times> ustr list \<times> string set" where
  "deriv_pass s segments_rev deriv =
     (if s = [] then (s, segments_rev, deriv)
      else case first_end s (by_len_desc DERIV_SUFFIXES) of
        Some (e, dtag, dpos) \<Rightarrow>
          deriv_pass (cut_last s (length e)) (segments_rev @ [e])
            (insert dpos (insert dtag deriv))
      | None \<Rightarrow> (s, segments_rev, deriv))"
  by pat_completeness auto
termination
  by (relation "measure (\<lambda>(s, segments_rev, deriv). length s)")
    (auto intro: shorter)

declare deriv_pass.simps [simp del]

definition parse_tr_suffixes_full ::
  "unicode_db \<Rightarrow> ustr \<Rightarrow> ustr list \<times> string set \<times> string set \<times> string set" where
  "parse_tr_suffixes_full U suffix =
     (let s = str_lower U suffix;
          (s, segments_rev, ud) = case_pass s [] {};
          (s, segments_rev, ud, amb) = poss_pass s segments_rev ud {};
          (s, segments_rev, ud) = plur_step s segments_rev ud;
          (s, segments_rev, deriv) = deriv_pass s segments_rev {};
          (segments_rev, deriv) =
            (if s \<noteq> [] then (segments_rev @ [s], insert ''Unparsed=Leftover'' deriv)
             else (segments_rev, deriv))
      in (rev segments_rev, ud, deriv, amb))"

section \<open>Python floats\<close>

text \<open>
  The weights of the matrix vote are Python floats, and the two scores are computed in
  float arithmetic: the integer counts are converted to floats, and every product and sum
  is rounded. The arithmetic belongs to the interpreter and is a parameter of the model:
  the conversion of an \<^verbatim>\<open>int\<close>, the product, the sum and the comparison \<^verbatim>\<open>>=\<close> of two
  floats.
\<close>

record 'f float_ops =
  fl_of_int :: "int \<Rightarrow> 'f"
  fl_mul :: "'f \<Rightarrow> 'f \<Rightarrow> 'f"
  fl_add :: "'f \<Rightarrow> 'f \<Rightarrow> 'f"
  fl_ge :: "'f \<Rightarrow> 'f \<Rightarrow> bool"

text \<open>
  The instance for running the model: IEEE 754 binary64 on finite values. A value is a
  pair \<open>(m, e)\<close> for \<open>m * 2 ^ e\<close>, with \<open>m\<close> odd or the pair \<open>(0, 0)\<close>; an operation rounds
  the exact result to 53 significant bits, to nearest, a tie to the even neighbour. The
  exponent is not bounded, so the instance is the arithmetic of Python wherever no result
  overflows or is subnormal.
\<close>

type_synonym binary = "int \<times> int"

fun bit_length :: "nat \<Rightarrow> nat" where
  "bit_length n = (if n = 0 then 0 else Suc (bit_length (n div 2)))"

declare bit_length.simps [simp del]

function trim :: "int \<Rightarrow> int \<Rightarrow> binary" where
  \<comment> \<open>the pair with an odd first component that stands for the same value\<close>
  "trim m e = (if m = 0 then (0, 0) else if even m then trim (m div 2) (e + 1) else (m, e))"
  by pat_completeness auto
termination
  by (relation "measure (\<lambda>(m, e). nat \<bar>m\<bar>)") auto

declare trim.simps [simp del]

definition round53 :: "int \<Rightarrow> int \<Rightarrow> binary" where
  \<comment> \<open>\<open>m * 2 ^ e\<close> rounded to 53 significant bits: \<open>q\<close> is the integer below and \<open>r\<close> what
      is cut off, compared with the half \<open>h\<close> of the last place\<close>
  "round53 m e =
     (let n = bit_length (nat \<bar>m\<bar>)
      in if n \<le> 53 then trim m e
         else (let k = n - 53;
                   q = m div 2 ^ k;
                   r = m mod 2 ^ k;
                   h = 2 ^ (k - 1);
                   q' = (if r < h then q else if h < r then q + 1
                         else if even q then q else q + 1)
               in trim q' (e + int k)))"

definition b_mul :: "binary \<Rightarrow> binary \<Rightarrow> binary" where
  "b_mul a b = (case (a, b) of ((m1, e1), (m2, e2)) \<Rightarrow> round53 (m1 * m2) (e1 + e2))"

definition b_add :: "binary \<Rightarrow> binary \<Rightarrow> binary" where
  "b_add a b = (case (a, b) of ((m1, e1), (m2, e2)) \<Rightarrow>
     (let e = min e1 e2
      in round53 (m1 * 2 ^ nat (e1 - e) + m2 * 2 ^ nat (e2 - e)) e))"

definition b_ge :: "binary \<Rightarrow> binary \<Rightarrow> bool" where
  "b_ge a b = (case (a, b) of ((m1, e1), (m2, e2)) \<Rightarrow>
     (let e = min e1 e2 in m2 * 2 ^ nat (e2 - e) \<le> m1 * 2 ^ nat (e1 - e)))"

definition b_lit :: "int \<Rightarrow> int \<Rightarrow> binary" where
  \<comment> \<open>the float of a decimal literal with the value \<open>p / q\<close>, for \<open>0 \<le> p\<close> and \<open>0 < q\<close>: the
      quotient is taken with more than 56 bits, and a last bit tells whether the division
      left a remainder\<close>
  "b_lit p q =
     (if p = 0 then (0, 0)
      else (let s = 56 + bit_length (nat q);
                Q = (p * 2 ^ s) div q;
                R = (p * 2 ^ s) mod q
            in round53 (2 * Q + (if R = 0 then 0 else 1)) (- int s - 1)))"

definition b_val :: "binary \<Rightarrow> rat" where
  \<comment> \<open>the number a pair stands for\<close>
  "b_val a = (case a of (m, e) \<Rightarrow>
     if 0 \<le> e then of_int m * 2 ^ nat e else of_int m / 2 ^ nat (- e))"

definition binary64 :: "binary float_ops" where
  "binary64 = \<lparr>fl_of_int = (\<lambda>n. round53 n 0), fl_mul = b_mul, fl_add = b_add, fl_ge = b_ge\<rparr>"

section \<open>Labels and configuration\<close>

text \<open>The label strings of the code.\<close>

datatype label = TR | EN | MIXED | UID | NE | OTHER

definition label_str :: "label \<Rightarrow> ustr" where
  "label_str lb =
     (case lb of TR \<Rightarrow> u ''TR'' | EN \<Rightarrow> u ''EN'' | MIXED \<Rightarrow> u ''MIXED''
      | UID \<Rightarrow> u ''UID'' | NE \<Rightarrow> u ''NE'' | OTHER \<Rightarrow> u ''OTHER'')"

text \<open>
  \<^verbatim>\<open>cfg\<close> is \<^verbatim>\<open>DEFAULTS\<close> updated with the caller's overrides, so every key of \<^verbatim>\<open>DEFAULTS\<close>
  is present. The two weights are floats that enter float arithmetic, \<open>'f\<close> being the type
  of floats. The thresholds are only compared, which is exact, and are modelled by the real
  numbers they stand for.
\<close>

record 'f config =
  FEATURE_LANGUAGE_PER_ITEM :: bool
  FEATURE_MATRIX_LANGUAGE :: bool
  FEATURE_EMBEDDED_LANGUAGE :: bool
  FEATURE_SENTENCE_ID :: bool
  NER_ENABLED :: bool
  FT_EN_MIN :: real
  FT_TR_MIN :: real
  MIXED_STRICT :: bool
  EMIT_MIXED_SUFFIX :: bool
  MIXED_TR_WEIGHT :: 'f
  MIXED_EN_WEIGHT :: 'f
  EMBED_MIN_COUNT :: int
  EMBED_MIN_RATIO :: real

text \<open>
  The weights \<^verbatim>\<open>0.6\<close> and \<^verbatim>\<open>0.4\<close> of \<^verbatim>\<open>DEFAULTS\<close> are the floats of these literals
  (lemma \<open>default_weights\<close>).
\<close>

definition DEFAULTS :: "binary config" where
  "DEFAULTS =
     \<lparr>FEATURE_LANGUAGE_PER_ITEM = True, FEATURE_MATRIX_LANGUAGE = True,
      FEATURE_EMBEDDED_LANGUAGE = True, FEATURE_SENTENCE_ID = True, NER_ENABLED = True,
      FT_EN_MIN = 0.80, FT_TR_MIN = 0.80, MIXED_STRICT = True, EMIT_MIXED_SUFFIX = False,
      MIXED_TR_WEIGHT = (5404319552844595, - 53), MIXED_EN_WEIGHT = (3602879701896397, - 53),
      EMBED_MIN_COUNT = 1,
      EMBED_MIN_RATIO = 0.20\<rparr>"

section \<open>The annotator\<close>

text \<open>
  The fields of \<^verbatim>\<open>Annotator\<close>: the three frequency sets; \<^verbatim>\<open>_ft_predict\<close>, the cached
  wrapper of the language identifier, a pure function from the lower-cased token to the
  upper-cased language code and its probability; and the named-entity pipeline, reduced to
  the texts of \<^verbatim>\<open>doc.ents\<close> for a line (the empty list when the document has none).
\<close>

record annotator =
  turkish_freq_top :: "ustr set"
  turkish_freq_all :: "ustr set"
  english_freq_words :: "ustr set"
  ft_predict :: "ustr \<Rightarrow> string \<times> real"
  ner :: "ustr \<Rightarrow> ustr list"

definition choose_label :: "annotator \<Rightarrow> ustr \<Rightarrow> 'f config \<Rightarrow> label" where
  "choose_label self token_l cfg =
     (if token_l \<in> turkish_freq_top self then TR
      else if token_l \<in> english_freq_words self then EN
      else if token_l \<in> turkish_freq_all self then TR
      else (let (lang, prob) = ft_predict self token_l in
            if lang = ''EN'' \<and> prob \<ge> FT_EN_MIN cfg then EN
            else if lang = ''TR'' \<and> prob \<ge> FT_TR_MIN cfg then TR
            else UID))"

section \<open>The sentence aggregator\<close>

text \<open>
  \<^verbatim>\<open>score_tr\<close> starts as the \<^verbatim>\<open>int\<close> count and \<^verbatim>\<open>score_tr += cfg[...] * mixed_cnt\<close> makes it
  a float: the product of the weight and the converted count, added to the converted count.
\<close>

definition score_tr :: "'f float_ops \<Rightarrow> label list \<Rightarrow> 'f config \<Rightarrow> 'f" where
  "score_tr F labels cfg =
     fl_add F (fl_of_int F (int (sum_list [1. lb \<leftarrow> labels, lb = TR])))
       (fl_mul F (MIXED_TR_WEIGHT cfg)
          (fl_of_int F (int (sum_list [1. lb \<leftarrow> labels, lb = MIXED]))))"

definition score_en :: "'f float_ops \<Rightarrow> label list \<Rightarrow> 'f config \<Rightarrow> 'f" where
  "score_en F labels cfg =
     fl_add F (fl_of_int F (int (sum_list [1. lb \<leftarrow> labels, lb = EN])))
       (fl_mul F (MIXED_EN_WEIGHT cfg)
          (fl_of_int F (int (sum_list [1. lb \<leftarrow> labels, lb = MIXED]))))"

text \<open>The embedded language \<^verbatim>\<open>"-"\<close> is \<open>None\<close>.\<close>

definition decide_matrix_embed ::
  "'f float_ops \<Rightarrow> label list \<Rightarrow> 'f config \<Rightarrow> label \<times> label option" where
  "decide_matrix_embed F labels cfg =
     (let matrix = (if fl_ge F (score_tr F labels cfg) (score_en F labels cfg) then TR else EN);
          embed =
            (if matrix = TR
             then (if list_ex (\<lambda>lb. lb = EN \<or> lb = MIXED) labels then Some EN else None)
             else (if list_ex (\<lambda>lb. lb = TR \<or> lb = MIXED) labels then Some TR else None))
      in (matrix, embed))"

definition embed_str :: "label option \<Rightarrow> ustr" where
  "embed_str e = (case e of None \<Rightarrow> u ''-'' | Some lb \<Rightarrow> label_str lb)"

section \<open>Token predicates\<close>

definition ic_eq :: "nat \<Rightarrow> nat \<Rightarrow> bool" where
  \<comment> \<open>a lower-case ASCII literal \<open>l\<close> of a pattern compiled with \<^verbatim>\<open>re.IGNORECASE\<close> against
      the character \<open>c\<close>: the letter, its capital, and for \<^verbatim>\<open>s\<close> also U+017F (long s)\<close>
  "ic_eq l c = (c = l \<or> (97 \<le> l \<and> l \<le> 122 \<and> c + 32 = l) \<or> (l = 115 \<and> c = 383))"

fun match_lit_ic :: "ustr \<Rightarrow> ustr \<Rightarrow> ustr option" where
  \<comment> \<open>matches the literal at the head of the subject and returns the rest\<close>
  "match_lit_ic [] s = Some s"
| "match_lit_ic (l # ls) [] = None"
| "match_lit_ic (l # ls) (c # cs) = (if ic_eq l c then match_lit_ic ls cs else None)"

definition nonspace_head :: "unicode_db \<Rightarrow> ustr \<Rightarrow> bool" where
  \<comment> \<open>\<^verbatim>\<open>\S+\<close> at the head\<close>
  "nonspace_head U s = (case s of [] \<Rightarrow> False | c # cs \<Rightarrow> \<not> space_char U c)"

definition URL_RE_match :: "unicode_db \<Rightarrow> ustr \<Rightarrow> bool" where
  \<comment> \<open>\<^verbatim>\<open>URL_RE.match(tok)\<close>, the pattern \<^verbatim>\<open>(https?://\S+|www\.\S+)\<close> at the head\<close>
  "URL_RE_match U tok =
     ((case match_lit_ic (u ''http'') tok of
         None \<Rightarrow> False
       | Some r \<Rightarrow>
           (let r' = (case r of [] \<Rightarrow> r | c # cs \<Rightarrow> if ic_eq 115 c then cs else r)
            in case match_lit_ic (u ''://'') r' of
                 None \<Rightarrow> False
               | Some r'' \<Rightarrow> nonspace_head U r''))
      \<or> (case match_lit_ic (u ''www.'') tok of
            None \<Rightarrow> False
          | Some r \<Rightarrow> nonspace_head U r))"

definition sigil_match :: "unicode_db \<Rightarrow> nat \<Rightarrow> ustr \<Rightarrow> bool" where
  \<comment> \<open>\<^verbatim>\<open>MENTION_RE.match\<close> (sigil \<^verbatim>\<open>@\<close>) and \<^verbatim>\<open>HASHTAG_RE.match\<close> (sigil \<^verbatim>\<open>#\<close>): the
      sigil and one word character at the head\<close>
  "sigil_match U sigil tok =
     (case tok of c # d # cs \<Rightarrow> c = sigil \<and> word_char U d | _ \<Rightarrow> False)"

fun numeric_tail :: "unicode_db \<Rightarrow> bool \<Rightarrow> ustr \<Rightarrow> bool" where
  \<comment> \<open>the rest of \<^verbatim>\<open>^\d+([.,:/-]\d+)*$\<close>; the flag says that the current group of digits
      is not empty. \<^verbatim>\<open>$\<close> also matches before a final newline.\<close>
  "numeric_tail U seen [] = seen"
| "numeric_tail U seen (c # cs) =
     (if digit_char U c then numeric_tail U True cs
      else if seen \<and> c \<in> set (u ''.,:/-'') then numeric_tail U False cs
      else seen \<and> c = 10 \<and> cs = [])"

definition NUMERIC_RE_match :: "unicode_db \<Rightarrow> ustr \<Rightarrow> bool" where
  "NUMERIC_RE_match U tok = numeric_tail U False tok"

definition EMOJI_RE_search :: "ustr \<Rightarrow> bool" where
  \<comment> \<open>a code point of U+10000..U+10FFFF anywhere\<close>
  "EMOJI_RE_search tok = list_ex (\<lambda>c. 65536 \<le> c \<and> c \<le> 1114111) tok"

definition nonword_fullmatch :: "unicode_db \<Rightarrow> ustr \<Rightarrow> bool" where
  \<comment> \<open>\<^verbatim>\<open>re.fullmatch(r"[\W_]+", tok)\<close>\<close>
  "nonword_fullmatch U tok = (tok \<noteq> [] \<and> list_all (\<lambda>c. \<not> word_char U c \<or> c = 95) tok)"

definition is_other_token :: "unicode_db \<Rightarrow> ustr \<Rightarrow> bool" where
  "is_other_token U tok =
     (if tok = [] then True
      else if URL_RE_match U tok \<or> sigil_match U 64 tok \<or> sigil_match U 35 tok then True
      else if NUMERIC_RE_match U tok then True
      else if EMOJI_RE_search tok then True
      else if nonword_fullmatch U tok then True
      else False)"

definition is_apos :: "nat \<Rightarrow> bool" where
  \<comment> \<open>the class \<^verbatim>\<open>['\<dots>]\<close>: the ASCII apostrophe and U+2019\<close>
  "is_apos c = (c = 39 \<or> c = 8217)"

definition clean_token :: "unicode_db \<Rightarrow> ustr \<Rightarrow> ustr" where
  \<comment> \<open>\<^verbatim>\<open>re.sub(r"[^\w\<dots>']+", "", token)\<close>\<close>
  "clean_token U token = filter (\<lambda>c. word_char U c \<or> is_apos c) token"

section \<open>Tokenization\<close>

definition word_token :: "unicode_db \<Rightarrow> ustr \<Rightarrow> ustr \<times> ustr" where
  \<comment> \<open>the match of \<^verbatim>\<open>\w+['\<dots>]?\w*\<close> at the head of a string that begins with a word
      character, and the rest of the string. Each part is greedy and the parts after the
      first may be empty, so the match never backtracks.\<close>
  "word_token U s =
     (let run1 = takeWhile (word_char U) s;
          rest1 = dropWhile (word_char U) s;
          ap = (case rest1 of [] \<Rightarrow> [] | a # r \<Rightarrow> if is_apos a then [a] else []);
          rest2 = drop (length ap) rest1;
          run2 = takeWhile (word_char U) rest2;
          rest3 = dropWhile (word_char U) rest2
      in (run1 @ ap @ run2, rest3))"

lemma word_token_shorter:
  assumes "word_char U c"
  shows "length (snd (word_token U (c # cs))) < Suc (length cs)"
proof -
  define rest1 where "rest1 = dropWhile (word_char U) cs"
  define n where
    "n = length (case rest1 of [] \<Rightarrow> [] | a # r \<Rightarrow> if is_apos a then [a] else [])"
  have "length (snd (word_token U (c # cs)))
          = length (dropWhile (word_char U) (drop n rest1))"
    using assms by (simp add: word_token_def Let_def rest1_def n_def)
  moreover have "length (dropWhile (word_char U) (drop n rest1)) \<le> length (drop n rest1)"
    by (rule length_dropWhile_le)
  moreover have "length (drop n rest1) \<le> length rest1"
    by simp
  moreover have "length rest1 \<le> length cs"
    unfolding rest1_def by (rule length_dropWhile_le)
  ultimately show ?thesis
    by linarith
qed

function findall_tokens :: "unicode_db \<Rightarrow> bool \<Rightarrow> ustr \<Rightarrow> ustr list" where
  \<comment> \<open>\<^verbatim>\<open>re.findall\<close> of \<^verbatim>\<open>\w+['\<dots>]?\w*|\w+\<close>, with the alternative \<^verbatim>\<open>|['\<dots>]\<close> when the
      flag is set: the scan restarts after each match and skips a character that begins
      none. The alternative \<^verbatim>\<open>\w+\<close> never fires, the first one matching wherever it does.\<close>
  "findall_tokens U lone [] = []"
| "findall_tokens U lone (c # cs) =
     (if word_char U c
      then fst (word_token U (c # cs)) # findall_tokens U lone (snd (word_token U (c # cs)))
      else if lone \<and> is_apos c then [c] # findall_tokens U lone cs
      else findall_tokens U lone cs)"
  by pat_completeness auto
termination
  by (relation "measure (\<lambda>(U, lone, s). length s)") (auto simp: word_token_shorter)

declare findall_tokens.simps [simp del]

definition tokenize :: "unicode_db \<Rightarrow> ustr \<Rightarrow> ustr list" where
  "tokenize U text = findall_tokens U True text"

section \<open>Mixed-token detection\<close>

fun re_split_apos :: "ustr \<Rightarrow> ustr list" where
  \<comment> \<open>\<^verbatim>\<open>re.split(r"[\<dots>']", token)\<close>\<close>
  "re_split_apos [] = [[]]"
| "re_split_apos (c # cs) =
     (if is_apos c then [] # re_split_apos cs
      else (case re_split_apos cs of [] \<Rightarrow> [[c]] | p # ps \<Rightarrow> (c # p) # ps))"

definition EN_CONTRACTIONS :: "ustr set" where
  "EN_CONTRACTIONS = {u ''s'', u ''re'', u ''ve'', u ''m'', u ''ll'', u ''d'', u ''t''}"

definition n_apos_t :: ustr where
  \<comment> \<open>the literal \<^verbatim>\<open>"n't"\<close>\<close>
  "n_apos_t = [110, 39, 116]"

text \<open>The result \<^verbatim>\<open>(None, None)\<close> is \<open>None\<close>.\<close>

definition split_mixed_apostrophe :: "unicode_db \<Rightarrow> ustr \<Rightarrow> (ustr \<times> ustr) option" where
  "split_mixed_apostrophe U token =
     (if 39 \<in> set token \<or> 8217 \<in> set token then
        (case re_split_apos token of
           [base, suff] \<Rightarrow>
             (if base \<noteq> [] \<and> suff \<noteq> [] then
                (let sfx = str_lower U suff in
                 if sfx \<in> EN_CONTRACTIONS \<or> endswith sfx n_apos_t then None
                 else Some (base, suff))
              else None)
         | _ \<Rightarrow> None)
      else None)"

definition all_suffixes :: "ustr list" where
  \<comment> \<open>the set union of the keys of the seven tables. Python leaves the iteration order of a
      set open; the order taken here is the tables' own, and the result of the scan does
      not depend on it (lemma \<open>detect_order_irrelevant\<close>).\<close>
  "all_suffixes =
     remdups (map fst CASE_ENDINGS @ map fst PLUR @ map fst POSS_LONG @ map fst POSS_SHORT
       @ map fst DERIV_SUFFIXES @ map fst BUFFER_N_ACC @ map fst BUFFER_N_DAT)"

definition VOWELS :: ustr where
  "VOWELS = tr ''aeIioOuU''"

definition has_ud :: "ustr list \<times> string set \<times> string set \<times> string set \<Rightarrow> bool" where
  \<comment> \<open>\<^verbatim>\<open>bool(ud_feats or deriv or amb)\<close> on the parser's result\<close>
  "has_ud parsed = (case parsed of (segments, ud_feats, deriv, amb) \<Rightarrow>
     ud_feats \<noteq> {} \<or> deriv \<noteq> {} \<or> amb \<noteq> {})"

definition detect_candidate ::
  "unicode_db \<Rightarrow> annotator \<Rightarrow> ustr \<Rightarrow> 'f config \<Rightarrow> ustr \<Rightarrow> (ustr \<times> ustr) option" where
  \<comment> \<open>the body of the loop over the candidate suffixes: \<open>None\<close> is \<^verbatim>\<open>continue\<close>, \<open>Some\<close> the
      returned pair\<close>
  "detect_candidate U self token cfg suf =
     (if length suf < 2 then None
      else if endswith (str_lower U token) suf then
        (let base = cut_last token (length suf);
             base_clean = str_lower U (clean_token U base)
         in if length base_clean < 2 then None
            else
              (let base_is_en =
                     (if base_clean \<in> english_freq_words self then True
                      else (let (blang, bprob) = ft_predict self base_clean
                            in blang = ''EN'' \<and> bprob \<ge> FT_EN_MIN cfg))
               in if \<not> base_is_en then None
                  else
                    (let last_is_vowel =
                           (if base_clean \<noteq> [] then last base_clean \<in> set VOWELS else True)
                     in if (hd suf = 121 \<or> hd suf = 110) \<and> \<not> last_is_vowel then None
                        else if \<not> has_ud (parse_tr_suffixes_full U suf) then None
                        else if MIXED_STRICT cfg \<and> base_clean \<in> turkish_freq_all self then None
                        else Some (base, keep_last token (length suf)))))
      else None)"

fun first_result :: "('a \<Rightarrow> 'b option) \<Rightarrow> 'a list \<Rightarrow> 'b option" where
  \<comment> \<open>a \<^verbatim>\<open>for\<close> loop that returns from its first iteration that does not \<^verbatim>\<open>continue\<close>\<close>
  "first_result body [] = None"
| "first_result body (x # xs) =
     (case body x of Some r \<Rightarrow> Some r | None \<Rightarrow> first_result body xs)"

definition detect_mixed_no_apostrophe ::
  "unicode_db \<Rightarrow> annotator \<Rightarrow> ustr \<Rightarrow> 'f config \<Rightarrow> (ustr \<times> ustr) option" where
  "detect_mixed_no_apostrophe U self token cfg =
     (if str_lower U token \<in> turkish_freq_all self then None
      else first_result (detect_candidate U self token cfg)
             (sort_key (\<lambda>suf. - int (length suf)) all_suffixes))"

section \<open>The pipeline\<close>

definition row :: "ustr \<Rightarrow> ustr \<Rightarrow> ustr" where
  \<comment> \<open>the output row \<^verbatim>\<open>f"{a}\t{b}"\<close>\<close>
  "row a b = a @ [9] @ b"

fun str_of_nat :: "nat \<Rightarrow> ustr" where
  \<comment> \<open>the decimal digits of the sentence counter\<close>
  "str_of_nat n = (if n < 10 then [48 + n] else str_of_nat (n div 10) @ [48 + n mod 10])"

declare str_of_nat.simps [simp del]

definition build_ne_map :: "unicode_db \<Rightarrow> ustr list \<Rightarrow> ustr list \<Rightarrow> ustr set" where
  \<comment> \<open>the keys of \<^verbatim>\<open>ne_map\<close> (every value is \<^verbatim>\<open>"NE"\<close>), from the texts of the entities\<close>
  "build_ne_map U ents line_tokens =
     (if ents = [] then {}
      else (let ne_pieces =
                  set (filter (\<lambda>piece. piece \<noteq> []) (concat (map (findall_tokens U False) ents)))
            in set (filter (\<lambda>tok. tok \<in> ne_pieces) line_tokens)))"

text \<open>
  The block \<^verbatim>\<open>base, suf = self._split_mixed_apostrophe(tok); if base and suf: ...\<close> stands
  twice in \<^verbatim>\<open>annotate\<close>. A result \<open>Some lb\<close> is the label with which it leaves the iteration
  (\<^verbatim>\<open>continue\<close>), \<open>None\<close> is falling through. Only the copy that writes token rows leaves
  with TR.
\<close>

definition apostrophe_exit_rows ::
  "unicode_db \<Rightarrow> annotator \<Rightarrow> 'f config \<Rightarrow> ustr \<Rightarrow> label option" where
  "apostrophe_exit_rows U self cfg tok =
     (case split_mixed_apostrophe U tok of
        None \<Rightarrow> None
      | Some (base, suf) \<Rightarrow>
          if base \<noteq> [] \<and> suf \<noteq> [] then
            (let base_l = str_lower U (clean_token U base);
                 base_label = choose_label self base_l cfg
             in if base_label = EN \<and> has_ud (parse_tr_suffixes_full U suf) then Some MIXED
                else if base_label = TR then Some TR
                else None)
          else None)"

definition apostrophe_exit_labels ::
  "unicode_db \<Rightarrow> annotator \<Rightarrow> 'f config \<Rightarrow> ustr \<Rightarrow> label option" where
  "apostrophe_exit_labels U self cfg tok =
     (case split_mixed_apostrophe U tok of
        None \<Rightarrow> None
      | Some (base, suf) \<Rightarrow>
          if base \<noteq> [] \<and> suf \<noteq> [] then
            (let base_l = str_lower U (clean_token U base);
                 base_lb = choose_label self base_l cfg
             in if base_lb = EN \<and> has_ud (parse_tr_suffixes_full U suf) then Some MIXED
                else None)
          else None)"

definition no_apostrophe_exit ::
  "unicode_db \<Rightarrow> annotator \<Rightarrow> 'f config \<Rightarrow> ustr \<Rightarrow> label \<Rightarrow> bool" where
  \<comment> \<open>the block \<^verbatim>\<open>if label != "TR": ...; if base2 and suf2: ...\<close>\<close>
  "no_apostrophe_exit U self cfg tok lb =
     (lb \<noteq> TR \<and>
      (case detect_mixed_no_apostrophe U self tok cfg of
         None \<Rightarrow> False
       | Some (base2, suf2) \<Rightarrow> base2 \<noteq> [] \<and> suf2 \<noteq> []))"

definition annotate_token ::
  "unicode_db \<Rightarrow> annotator \<Rightarrow> 'f config \<Rightarrow> ustr set \<Rightarrow> ustr list \<times> label list \<Rightarrow> ustr
    \<Rightarrow> ustr list \<times> label list" where
  \<comment> \<open>one iteration of \<^verbatim>\<open>for tok in tokens\<close> on \<^verbatim>\<open>(sent_rows, labels_in_sent)\<close>\<close>
  "annotate_token U self cfg ne_map st tok =
     (case st of (sent_rows, labels_in_sent) \<Rightarrow>
      let tok_clean = clean_token U tok in
      if is_other_token U tok then
        (if FEATURE_LANGUAGE_PER_ITEM cfg
         then (sent_rows @ [row tok (label_str OTHER)], labels_in_sent)
         else (sent_rows, labels_in_sent))
      else if tok \<in> ne_map then
        (if FEATURE_LANGUAGE_PER_ITEM cfg
         then (sent_rows @ [row tok (label_str NE)], labels_in_sent @ [NE])
         else (sent_rows, labels_in_sent))
      else if \<not> FEATURE_LANGUAGE_PER_ITEM cfg then
        (let tok_l = str_lower U tok_clean;
             lb = choose_label self tok_l cfg
         in case apostrophe_exit_labels U self cfg tok of
              Some l \<Rightarrow> (sent_rows, labels_in_sent @ [l])
            | None \<Rightarrow>
                if no_apostrophe_exit U self cfg tok lb then (sent_rows, labels_in_sent @ [MIXED])
                else if lb = TR \<or> lb = EN then (sent_rows, labels_in_sent @ [lb])
                else (sent_rows, labels_in_sent))
      else
        (let tok_l = str_lower U tok_clean;
             lb = choose_label self tok_l cfg
         in case apostrophe_exit_rows U self cfg tok of
              Some l \<Rightarrow> (sent_rows @ [row tok (label_str l)], labels_in_sent @ [l])
            | None \<Rightarrow>
                if no_apostrophe_exit U self cfg tok lb
                then (sent_rows @ [row tok (label_str MIXED)], labels_in_sent @ [MIXED])
                else (sent_rows @ [row tok (label_str lb)],
                      if lb = TR \<or> lb = EN \<or> lb = MIXED then labels_in_sent @ [lb]
                      else labels_in_sent)))"

definition is_linebreak :: "nat \<Rightarrow> bool" where
  \<comment> \<open>the line boundaries of \<^verbatim>\<open>str.splitlines\<close>\<close>
  "is_linebreak c = (c \<in> {10, 11, 12, 13, 28, 29, 30, 133, 8232, 8233})"

fun splitlines_from :: "ustr \<Rightarrow> ustr \<Rightarrow> ustr list" where
  \<comment> \<open>\<^verbatim>\<open>str.splitlines\<close>, the first argument being the line read so far; CR LF is one
      boundary, and no empty line follows a final boundary\<close>
  "splitlines_from cur [] = (if cur = [] then [] else [cur])"
| "splitlines_from cur [c] = (if is_linebreak c then [cur] else [cur @ [c]])"
| "splitlines_from cur (c # d # cs) =
     (if is_linebreak c
      then cur # (if c = 13 \<and> d = 10 then splitlines_from [] cs
                  else splitlines_from [] (d # cs))
      else splitlines_from (cur @ [c]) (d # cs))"

definition splitlines :: "ustr \<Rightarrow> ustr list" where
  "splitlines text = splitlines_from [] text"

definition rstrip_nl :: "ustr \<Rightarrow> ustr" where
  \<comment> \<open>\<^verbatim>\<open>raw.rstrip("\n")\<close>\<close>
  "rstrip_nl s = rev (dropWhile (\<lambda>c. c = 10) (rev s))"

definition str_strip :: "unicode_db \<Rightarrow> ustr \<Rightarrow> ustr" where
  \<comment> \<open>\<^verbatim>\<open>line.strip()\<close>\<close>
  "str_strip U s = rev (dropWhile (space_char U) (rev (dropWhile (space_char U) s)))"

fun join_nl :: "ustr list \<Rightarrow> ustr" where
  \<comment> \<open>\<^verbatim>\<open>"\n".join(out_lines)\<close>\<close>
  "join_nl [] = []"
| "join_nl [x] = x"
| "join_nl (x # y # ys) = x @ [10] @ join_nl (y # ys)"

definition annotate_line ::
  "unicode_db \<Rightarrow> 'f float_ops \<Rightarrow> annotator \<Rightarrow> 'f config \<Rightarrow> ustr list \<times> nat \<Rightarrow> ustr
    \<Rightarrow> ustr list \<times> nat" where
  \<comment> \<open>one iteration of \<^verbatim>\<open>for raw in lines\<close> on \<^verbatim>\<open>(out_lines, sent_idx)\<close>\<close>
  "annotate_line U F self cfg st raw =
     (case st of (out_lines, sent_idx) \<Rightarrow>
      let line = rstrip_nl raw in
      if str_strip U line = [] then (out_lines @ [[]], sent_idx)
      else
        (let sent_idx = sent_idx + 1;
             out_lines =
               (if FEATURE_SENTENCE_ID cfg
                then out_lines @ [row (u ''SentenceID'') (str_of_nat sent_idx)]
                else out_lines);
             tokens = tokenize U line;
             ne_map = (if NER_ENABLED cfg then build_ne_map U (ner self line) tokens else {});
             (sent_rows, labels_in_sent) =
               foldl (annotate_token U self cfg ne_map) ([], []) tokens;
             out_lines = out_lines @ sent_rows;
             (matrix, embed) = decide_matrix_embed F labels_in_sent cfg;
             out_lines =
               (if FEATURE_MATRIX_LANGUAGE cfg then
                  (if FEATURE_EMBEDDED_LANGUAGE cfg
                   then out_lines @ [row (u ''MatrixLang'') (label_str matrix)]
                          @ [row (u ''EmbedLang'') (embed_str embed)]
                   else out_lines @ [row (u ''MatrixLang'') (label_str matrix)])
                else
                  (if FEATURE_EMBEDDED_LANGUAGE cfg
                   then out_lines @ [row (u ''EmbedLang'') (embed_str embed)]
                   else out_lines))
         in (out_lines @ [[]], sent_idx)))"

definition annotate ::
  "unicode_db \<Rightarrow> 'f float_ops \<Rightarrow> annotator \<Rightarrow> ustr \<Rightarrow> 'f config \<Rightarrow> ustr" where
  \<comment> \<open>\<^verbatim>\<open>annotate(text, user_cfg)\<close>, with \<open>cfg\<close> the merged configuration\<close>
  "annotate U F self text cfg =
     join_nl (fst (foldl (annotate_line U F self cfg) ([], 0) (splitlines text)))"

section \<open>A concrete environment\<close>

text \<open>
  An instance of the parameters for running the model on examples: the Unicode tables
  restricted to ASCII and the letters of the Turkish alphabet, and a small annotator whose
  language identifier is never confident.
\<close>

definition lower_cp :: "nat \<Rightarrow> ustr" where
  \<comment> \<open>\<^verbatim>\<open>str.lower\<close> of one character; capital I with dot above (U+0130) becomes two code
      points\<close>
  "lower_cp c =
     (if 65 \<le> c \<and> c \<le> 90 then [c + 32]
      else if c = 199 \<or> c = 214 \<or> c = 220 then [c + 32]
      else if c = 286 \<or> c = 350 then [c + 1]
      else if c = 304 then [105, 775]
      else [c])"

definition basic_word :: "nat \<Rightarrow> bool" where
  "basic_word c =
     ((48 \<le> c \<and> c \<le> 57) \<or> (65 \<le> c \<and> c \<le> 90) \<or> c = 95 \<or> (97 \<le> c \<and> c \<le> 122)
      \<or> c \<in> {199, 214, 220, 231, 246, 252, 286, 287, 304, 305, 350, 351})"

definition basic_space :: "nat \<Rightarrow> bool" where
  "basic_space c =
     ((9 \<le> c \<and> c \<le> 13) \<or> (28 \<le> c \<and> c \<le> 32) \<or> c = 133 \<or> c = 160 \<or> c = 5760
      \<or> (8192 \<le> c \<and> c \<le> 8202) \<or> c \<in> {8232, 8233, 8239, 8287, 12288})"

definition basic_db :: unicode_db where
  "basic_db =
     \<lparr>str_lower = (\<lambda>s. concat (map lower_cp s)), word_char = basic_word,
      digit_char = (\<lambda>c. 48 \<le> c \<and> c \<le> 57), space_char = basic_space\<rparr>"

definition demo_annotator :: annotator where
  "demo_annotator =
     \<lparr>turkish_freq_top = {u ''bu'', u ''araba''},
      turkish_freq_all = {u ''bu'', u ''araba'', tr ''kitabI''},
      english_freq_words = {u ''selfie'', u ''meeting''},
      ft_predict = (\<lambda>t. (''EN'', 0.5)),
      ner = (\<lambda>line. if line = u ''Ali 2024 selfie'' then [u ''Ali 2024''] else [])\<rparr>"

text \<open>Example tokens, the apostrophe of the last being U+2019.\<close>

definition selfie_yi :: ustr where
  "selfie_yi = u ''selfie'' @ [39] @ u ''yi''"

definition selfie_m :: ustr where
  "selfie_m = u ''selfie'' @ [39] @ u ''m''"

definition araba_ya :: ustr where
  "araba_ya = u ''araba'' @ [8217] @ u ''ya''"

section \<open>Notions of the specification\<close>

definition opposite :: "label \<Rightarrow> label" where
  \<comment> \<open>the other of the two languages\<close>
  "opposite m = (if m = TR then EN else TR)"

fun first_match :: "(bool \<times> 'a) list \<Rightarrow> 'a \<Rightarrow> 'a" where
  \<comment> \<open>a list of rules in priority order, the first whose condition holds deciding\<close>
  "first_match [] d = d"
| "first_match ((c, v) # rules) d = (if c then v else first_match rules d)"

definition chooseLanguage_spec :: "annotator \<Rightarrow> ustr \<Rightarrow> 'f config \<Rightarrow> label" where
  \<comment> \<open>the priority list of the specification's language chooser\<close>
  "chooseLanguage_spec self t cfg =
     first_match
       [(t \<in> turkish_freq_top self, TR),
        (t \<in> english_freq_words self, EN),
        (t \<in> turkish_freq_all self, TR),
        (fst (ft_predict self t) = ''EN'' \<and> snd (ft_predict self t) \<ge> FT_EN_MIN cfg, EN),
        (fst (ft_predict self t) = ''TR'' \<and> snd (ft_predict self t) \<ge> FT_TR_MIN cfg, TR)]
       UID"

definition real_tag :: "ustr list \<times> string set \<times> string set \<times> string set \<Rightarrow> bool" where
  \<comment> \<open>the parse has a case, possessive, plural, derivational or ambiguity tag\<close>
  "real_tag parsed = (case parsed of (segments, ud_feats, deriv, amb) \<Rightarrow>
     ud_feats \<noteq> {} \<or> amb \<noteq> {} \<or> deriv - {''Unparsed=Leftover''} \<noteq> {})"

definition ends_in :: "ustr \<Rightarrow> (ustr \<times> 'a) list \<Rightarrow> bool" where
  \<comment> \<open>some key of the table ends the string\<close>
  "ends_in s items = list_ex (\<lambda>x. endswith s (fst x)) items"

definition override_unused :: "'f config \<Rightarrow> bool \<Rightarrow> int \<Rightarrow> real \<Rightarrow> 'f config" where
  \<comment> \<open>the configuration with other values under the three keys\<close>
  "override_unused cfg a b c =
     cfg\<lparr>EMIT_MIXED_SUFFIX := a, EMBED_MIN_COUNT := b, EMBED_MIN_RATIO := c\<rparr>"

section \<open>The parser returns the lower-cased suffix\<close>

text \<open>
  Every pass keeps the remaining string followed by the stripped segments, read in surface
  order, equal to the string it started from.
\<close>

lemma cut_keep: "cut_last s n @ keep_last s n = s"
  by (simp add: cut_last_def keep_last_def)

lemma endswith_cut: "endswith s e \<Longrightarrow> cut_last s (length e) @ e = s"
  using cut_keep [of s "length e"] by (simp add: endswith_def keep_last_def)

lemma first_end_cut:
  "first_end s items = Some (e, f) \<Longrightarrow> cut_last s (length e) @ e = s"
  using first_end_Some [of s items "(e, f)"] by (simp add: endswith_cut)

lemma bare_vowel_cut:
  assumes "find (\<lambda>e. endswith s e) BARE_VOWELS = Some e"
  shows "cut_last s 1 @ e = s"
proof -
  from assms have "e \<in> set BARE_VOWELS" and e: "endswith s e"
    by (auto simp: find_Some_iff)
  then have "length e = 1"
    by (auto simp: BARE_VOWELS_def tr_def)
  with endswith_cut [OF e] show ?thesis by simp
qed

lemma case_pass_concat:
  "case_pass s segs ud = (s', segs', ud') \<Longrightarrow> s' @ concat (rev segs') = s @ concat (rev segs)"
proof (induction s segs ud rule: case_pass.induct)
  case (1 s segments_rev ud)
  note run = "1.prems" [unfolded case_pass.simps [of s segments_rev ud]]
  show ?case
  proof (cases "s = []")
    case True
    with run show ?thesis by simp
  next
    case False
    show ?thesis
    proof (cases "first_end s (by_len_desc (BUFFER_N_ACC @ BUFFER_N_DAT))")
      case (Some x)
      obtain e f where x: "x = (e, f)" by (cases x)
      from run False Some x
      have "case_pass (cut_last s (length e)) (segments_rev @ [keep_last s (length e)])
              (insert f ud) = (s', segs', ud')" by simp
      from "1.IH"(2) [OF False Some x [symmetric] this]
      show ?thesis by (simp add: cut_keep)
    next
      case None
      note none1 = None
      show ?thesis
      proof (cases "first_end s (by_len_desc CASE_ENDINGS)")
        case (Some x)
        obtain e f where x: "x = (e, f)" by (cases x)
        from run False none1 Some x
        have "case_pass (cut_last s (length e)) (segments_rev @ [keep_last s (length e)])
                (insert f ud) = (s', segs', ud')" by simp
        from "1.IH"(1) [OF False none1 Some x [symmetric] this]
        show ?thesis by (simp add: cut_keep)
      next
        case None
        with run False none1 show ?thesis by simp
      qed
    qed
  qed
qed

lemma poss_pass_concat:
  "poss_pass s segs ud amb = (s', segs', ud', amb')
    \<Longrightarrow> s' @ concat (rev segs') = s @ concat (rev segs)"
proof (induction s segs ud amb rule: poss_pass.induct)
  case (1 s segments_rev ud amb)
  note run = "1.prems" [unfolded poss_pass.simps [of s segments_rev ud amb]]
  show ?case
  proof (cases "s = []")
    case True
    with run show ?thesis by simp
  next
    case False
    show ?thesis
    proof (cases "first_end s (by_len_desc POSS_LONG)")
      case (Some x)
      obtain e f where x: "x = (e, f)" by (cases x)
      from run False Some x
      have "poss_pass (cut_last s (length e)) (segments_rev @ [keep_last s (length e)])
              (ud \<union> set f) amb = (s', segs', ud', amb')" by simp
      from "1.IH"(3) [OF False Some x [symmetric] this]
      show ?thesis by (simp add: cut_keep)
    next
      case None
      note none1 = None
      show ?thesis
      proof (cases "first_end s (by_len_desc POSS_SHORT)")
        case (Some x)
        obtain e f where x: "x = (e, f)" by (cases x)
        from run False none1 Some x
        have "poss_pass (cut_last s (length e)) (segments_rev @ [keep_last s (length e)])
                (ud \<union> set f) amb = (s', segs', ud', amb')" by simp
        from "1.IH"(2) [OF False none1 Some x [symmetric] this]
        show ?thesis by (simp add: cut_keep)
      next
        case None
        note none2 = None
        show ?thesis
        proof (cases "find (\<lambda>e. endswith s e) BARE_VOWELS")
          case (Some e)
          from run False none1 none2 Some
          have "poss_pass (cut_last s 1) (segments_rev @ [e]) ud
                  (insert ''Amb=P3sg_or_Acc'' amb) = (s', segs', ud', amb')" by simp
          from "1.IH"(1) [OF False none1 none2 Some this]
          have "s' @ concat (rev segs') = (cut_last s 1 @ e) @ concat (rev segments_rev)"
            by simp
          then show ?thesis by (simp only: bare_vowel_cut [OF Some])
        next
          case None
          with run False none1 none2 show ?thesis by simp
        qed
      qed
    qed
  qed
qed

lemma plur_step_concat:
  "plur_step s segs ud = (s', segs', ud') \<Longrightarrow> s' @ concat (rev segs') = s @ concat (rev segs)"
  by (auto simp: plur_step_def first_end_cut split: option.splits)

lemma deriv_pass_concat:
  "deriv_pass s segs deriv = (s', segs', deriv')
    \<Longrightarrow> s' @ concat (rev segs') = s @ concat (rev segs)"
proof (induction s segs deriv rule: deriv_pass.induct)
  case (1 s segments_rev deriv)
  note run = "1.prems" [unfolded deriv_pass.simps [of s segments_rev deriv]]
  show ?case
  proof (cases "s = []")
    case True
    with run show ?thesis by simp
  next
    case False
    show ?thesis
    proof (cases "first_end s (by_len_desc DERIV_SUFFIXES)")
      case (Some x)
      obtain e dtag dpos where x: "x = (e, dtag, dpos)" by (cases x)
      from run False Some x
      have "deriv_pass (cut_last s (length e)) (segments_rev @ [e])
              (insert dpos (insert dtag deriv)) = (s', segs', deriv')" by simp
      from "1.IH" [OF False Some x [symmetric] refl this]
      show ?thesis using first_end_cut [OF Some [unfolded x]] by simp
    next
      case None
      with run False show ?thesis by simp
    qed
  qed
qed

text \<open>
  C1 (amended). For every suffix string, the segments returned by the parser, concatenated
  in the returned surface order, are the lower-cased suffix \<^verbatim>\<open>suffix.lower()\<close>: past the
  lower-casing of the first line, no character is created, dropped or altered.
\<close>

theorem parse_segments_roundtrip:
  "concat (fst (parse_tr_suffixes_full U suffix)) = str_lower U suffix"
proof -
  obtain s1 g1 ud1 where p1: "case_pass (str_lower U suffix) [] {} = (s1, g1, ud1)"
    by (cases "case_pass (str_lower U suffix) [] {}")
  obtain s2 g2 ud2 amb where p2: "poss_pass s1 g1 ud1 {} = (s2, g2, ud2, amb)"
    by (cases "poss_pass s1 g1 ud1 {}")
  obtain s3 g3 ud3 where p3: "plur_step s2 g2 ud2 = (s3, g3, ud3)"
    by (cases "plur_step s2 g2 ud2")
  obtain s4 g4 deriv where p4: "deriv_pass s3 g3 {} = (s4, g4, deriv)"
    by (cases "deriv_pass s3 g3 {}")
  have "s4 @ concat (rev g4) = str_lower U suffix"
    using case_pass_concat [OF p1] poss_pass_concat [OF p2] plur_step_concat [OF p3]
      deriv_pass_concat [OF p4] by simp
  then show ?thesis
    by (auto simp add: parse_tr_suffixes_full_def p1 p2 p3 p4)
qed

theorem parse_segments_roundtrip_witness:
  "concat (fst (parse_tr_suffixes_full basic_db (tr ''larInIzdan''))) = tr ''larInIzdan''"
proof -
  have "str_lower basic_db (tr ''larInIzdan'') = tr ''larInIzdan''"
    by (simp add: basic_db_def lower_cp_def tr_def tr_char_def)
  with parse_segments_roundtrip [of basic_db "tr ''larInIzdan''"] show ?thesis
    by simp
qed

text \<open>
  C1 as stated fails on a suffix with a capital letter: the suffix \<^verbatim>\<open>"YI"\<close> (as in the
  token \<^verbatim>\<open>SELFIE'YI\<close>) is returned as the one segment \<^verbatim>\<open>"yi"\<close>.
\<close>

theorem parse_segments_counterexample:
  "parse_tr_suffixes_full basic_db (u ''YI'') = ([u ''yi''], {''Case=Acc''}, {}, {})
   \<and> concat (fst (parse_tr_suffixes_full basic_db (u ''YI''))) \<noteq> u ''YI''"
proof -
  have "parse_tr_suffixes_full basic_db (u ''YI'') = ([u ''yi''], {''Case=Acc''}, {}, {})"
    by code_simp
  then show ?thesis
    by (simp add: u_def)
qed

section \<open>Matrix and embedded language\<close>

lemma ones_count: "sum_list [1. lb \<leftarrow> labels, lb = x] = count_list labels x"
  by (induction labels) auto

lemma score_tr_count:
  "score_tr F labels cfg =
     fl_add F (fl_of_int F (int (count_list labels TR)))
       (fl_mul F (MIXED_TR_WEIGHT cfg) (fl_of_int F (int (count_list labels MIXED))))"
  by (simp add: score_tr_def ones_count)

lemma score_en_count:
  "score_en F labels cfg =
     fl_add F (fl_of_int F (int (count_list labels EN)))
       (fl_mul F (MIXED_EN_WEIGHT cfg) (fl_of_int F (int (count_list labels MIXED))))"
  by (simp add: score_en_def ones_count)

lemma count_list_filter:
  "P x \<Longrightarrow> count_list (filter P labels) x = count_list labels x"
  by (induction labels) auto

text \<open>Evaluation of the binary64 instance on numerals.\<close>

lemma bit_length_numeral:
  "bit_length 0 = 0"
  "bit_length (Suc 0) = 1"
  "bit_length (numeral k) = 1 + bit_length (numeral k div 2)"
  by (simp_all add: bit_length.simps [of 0] bit_length.simps [of "Suc 0"]
      bit_length.simps [of "numeral k"])

lemma trim_numeral:
  "trim 0 e = (0, 0)"
  "trim 1 e = (1, e)"
  "trim (numeral k) e =
     (if even (numeral k :: int) then trim (numeral k div 2) (e + 1) else (numeral k, e))"
  "trim (- numeral k) e =
     (if even (numeral k :: int) then trim (- numeral k div 2) (e + 1) else (- numeral k, e))"
  by (simp_all add: trim.simps [of 0] trim.simps [of 1] trim.simps [of "numeral k"]
      trim.simps [of "- numeral k"])

lemmas binary_eval = bit_length_numeral trim_numeral round53_def b_mul_def b_add_def b_ge_def
  b_lit_def binary64_def Let_def

lemma default_weights:
  "MIXED_TR_WEIGHT DEFAULTS = b_lit 6 10" "MIXED_EN_WEIGHT DEFAULTS = b_lit 4 10"
  by (simp_all add: DEFAULTS_def binary_eval)

lemma scenario_scores:
  "fl_add binary64 (fl_of_int binary64 2) (fl_mul binary64 (b_lit 6 10) (fl_of_int binary64 1))
     = b_lit 26 10"
  "fl_add binary64 (fl_of_int binary64 0) (fl_mul binary64 (b_lit 4 10) (fl_of_int binary64 1))
     = b_lit 4 10"
  "fl_ge binary64 (b_lit 26 10) (b_lit 4 10)"
  by (simp_all add: binary_eval)

text \<open>
  C2 (amended). The matrix language is TR exactly when \<open>score_tr >= score_en\<close>, and EN
  otherwise, the two scores being the floats that Python computes for
  \<open>count TR + MIXED_TR_WEIGHT * count MIXED\<close> and \<open>count EN + MIXED_EN_WEIGHT * count MIXED\<close>,
  each product and sum rounded, and \<open>>=\<close> the comparison of floats; a tie of the two
  computed scores (a score that compares \<open>>=\<close> to itself, that is, no NaN) gives TR; in
  binary64 with the weights 0.6 and 0.4 the labels TR, TR, MIXED score 2.6 and 0.4 and the
  matrix language is TR.
\<close>

theorem matrix_vote:
  "fst (decide_matrix_embed F labels cfg) =
     (if fl_ge F
          (fl_add F (fl_of_int F (int (count_list labels TR)))
             (fl_mul F (MIXED_TR_WEIGHT cfg) (fl_of_int F (int (count_list labels MIXED)))))
          (fl_add F (fl_of_int F (int (count_list labels EN)))
             (fl_mul F (MIXED_EN_WEIGHT cfg) (fl_of_int F (int (count_list labels MIXED)))))
      then TR else EN)
   \<and> (score_tr F labels cfg = score_en F labels cfg
        \<and> fl_ge F (score_en F labels cfg) (score_en F labels cfg)
       \<longrightarrow> fst (decide_matrix_embed F labels cfg) = TR)
   \<and> score_tr binary64 [TR, TR, MIXED]
        (bcfg\<lparr>MIXED_TR_WEIGHT := b_lit 6 10, MIXED_EN_WEIGHT := b_lit 4 10\<rparr>) = b_lit 26 10
   \<and> score_en binary64 [TR, TR, MIXED]
        (bcfg\<lparr>MIXED_TR_WEIGHT := b_lit 6 10, MIXED_EN_WEIGHT := b_lit 4 10\<rparr>) = b_lit 4 10
   \<and> fst (decide_matrix_embed binary64 [TR, TR, MIXED]
        (bcfg\<lparr>MIXED_TR_WEIGHT := b_lit 6 10, MIXED_EN_WEIGHT := b_lit 4 10\<rparr>)) = TR"
proof (intro conjI)
  let ?c = "bcfg\<lparr>MIXED_TR_WEIGHT := b_lit 6 10, MIXED_EN_WEIGHT := b_lit 4 10\<rparr>"
  show "fst (decide_matrix_embed F labels cfg) =
     (if fl_ge F
          (fl_add F (fl_of_int F (int (count_list labels TR)))
             (fl_mul F (MIXED_TR_WEIGHT cfg) (fl_of_int F (int (count_list labels MIXED)))))
          (fl_add F (fl_of_int F (int (count_list labels EN)))
             (fl_mul F (MIXED_EN_WEIGHT cfg) (fl_of_int F (int (count_list labels MIXED)))))
      then TR else EN)"
    by (simp add: decide_matrix_embed_def Let_def score_tr_count score_en_count)
  show "score_tr F labels cfg = score_en F labels cfg
        \<and> fl_ge F (score_en F labels cfg) (score_en F labels cfg)
       \<longrightarrow> fst (decide_matrix_embed F labels cfg) = TR"
    by (simp add: decide_matrix_embed_def Let_def)
  show tr: "score_tr binary64 [TR, TR, MIXED] ?c = b_lit 26 10"
    using scenario_scores(1) by (simp add: score_tr_def)
  show en: "score_en binary64 [TR, TR, MIXED] ?c = b_lit 4 10"
    using scenario_scores(2) by (simp add: score_en_def)
  show "fst (decide_matrix_embed binary64 [TR, TR, MIXED] ?c) = TR"
    using scenario_scores(3) by (simp add: decide_matrix_embed_def Let_def tr en)
qed

theorem matrix_vote_witness:
  "score_tr binary64 [EN, MIXED, MIXED, MIXED, MIXED, MIXED] DEFAULTS
     = score_en binary64 [EN, MIXED, MIXED, MIXED, MIXED, MIXED] DEFAULTS
   \<and> fst (decide_matrix_embed binary64 [EN, MIXED, MIXED, MIXED, MIXED, MIXED] DEFAULTS) = TR
   \<and> fst (decide_matrix_embed binary64 [EN, EN, TR] DEFAULTS) = EN"
proof -
  have tr: "score_tr binary64 [EN, MIXED, MIXED, MIXED, MIXED, MIXED] DEFAULTS = (3, 0)"
    by (simp add: score_tr_def DEFAULTS_def binary_eval)
  have en: "score_en binary64 [EN, MIXED, MIXED, MIXED, MIXED, MIXED] DEFAULTS = (3, 0)"
    by (simp add: score_en_def DEFAULTS_def binary_eval)
  have refl: "fl_ge binary64 (3, 0) (3, 0)"
    by (simp add: binary_eval)
  have tie: "score_tr binary64 [EN, MIXED, MIXED, MIXED, MIXED, MIXED] DEFAULTS
     = score_en binary64 [EN, MIXED, MIXED, MIXED, MIXED, MIXED] DEFAULTS"
    using tr en by simp
  have no_nan: "fl_ge binary64 (score_en binary64 [EN, MIXED, MIXED, MIXED, MIXED, MIXED] DEFAULTS)
      (score_en binary64 [EN, MIXED, MIXED, MIXED, MIXED, MIXED] DEFAULTS)"
    using en refl by simp
  have "fst (decide_matrix_embed binary64 [EN, MIXED, MIXED, MIXED, MIXED, MIXED] DEFAULTS) = TR"
    using matrix_vote [of binary64 "[EN, MIXED, MIXED, MIXED, MIXED, MIXED]" DEFAULTS DEFAULTS]
      tie no_nan by blast
  moreover have "\<not> fl_ge binary64
          (fl_add binary64 (fl_of_int binary64 (int (count_list [EN, EN, TR] TR)))
             (fl_mul binary64 (MIXED_TR_WEIGHT DEFAULTS)
                (fl_of_int binary64 (int (count_list [EN, EN, TR] MIXED)))))
          (fl_add binary64 (fl_of_int binary64 (int (count_list [EN, EN, TR] EN)))
             (fl_mul binary64 (MIXED_EN_WEIGHT DEFAULTS)
                (fl_of_int binary64 (int (count_list [EN, EN, TR] MIXED)))))"
    by (simp add: DEFAULTS_def binary_eval)
  then have "fst (decide_matrix_embed binary64 [EN, EN, TR] DEFAULTS) = EN"
    using matrix_vote [of binary64 "[EN, EN, TR]" DEFAULTS DEFAULTS]
    by (simp only: if_False)
  ultimately show ?thesis
    using tie by blast
qed

text \<open>
  C2 as stated, the two sides being the numbers \<open>count TR + MIXED_TR_WEIGHT * count MIXED\<close>
  and \<open>count EN + MIXED_EN_WEIGHT * count MIXED\<close>, fails in binary64. With the weights
  \<^verbatim>\<open>0.9999999999999999\<close> (the float below 1) and \<^verbatim>\<open>0.0\<close>, the labels TR, EN, EN, MIXED have
  the numbers \<open>2 - 1 / 2 ^ 53 < 2\<close>, the sum for TR rounds to 2, and the matrix language is
  TR. With the weights \<^verbatim>\<open>0.6\<close> and \<^verbatim>\<open>0.1\<close>, three EN and six MIXED have the decimal numbers
  \<open>3.6 \<ge> 3.6\<close>, the product for TR rounds to \<^verbatim>\<open>3.5999999999999996\<close>, and the matrix language
  is EN.
\<close>

theorem matrix_vote_counterexample:
  "decide_matrix_embed binary64 [TR, EN, EN, MIXED]
      (DEFAULTS\<lparr>MIXED_TR_WEIGHT := (9007199254740991, - 53), MIXED_EN_WEIGHT := (0, 0)\<rparr>)
     = (TR, Some EN)
   \<and> of_nat (count_list [TR, EN, EN, MIXED] TR)
        + b_val (9007199254740991, - 53) * of_nat (count_list [TR, EN, EN, MIXED] MIXED)
      < of_nat (count_list [TR, EN, EN, MIXED] EN)
        + b_val (0, 0) * of_nat (count_list [TR, EN, EN, MIXED] MIXED)
   \<and> decide_matrix_embed binary64 [EN, EN, EN, MIXED, MIXED, MIXED, MIXED, MIXED, MIXED]
      (DEFAULTS\<lparr>MIXED_TR_WEIGHT := b_lit 6 10, MIXED_EN_WEIGHT := b_lit 1 10\<rparr>)
     = (EN, Some TR)
   \<and> score_tr binary64 [EN, EN, EN, MIXED, MIXED, MIXED, MIXED, MIXED, MIXED]
      (DEFAULTS\<lparr>MIXED_TR_WEIGHT := b_lit 6 10, MIXED_EN_WEIGHT := b_lit 1 10\<rparr>)
     = (2026619832316723, - 49)
   \<and> score_en binary64 [EN, EN, EN, MIXED, MIXED, MIXED, MIXED, MIXED, MIXED]
      (DEFAULTS\<lparr>MIXED_TR_WEIGHT := b_lit 6 10, MIXED_EN_WEIGHT := b_lit 1 10\<rparr>)
     = b_lit 36 10
   \<and> (3 :: rat) + 1 / 10 * 6 \<le> 0 + 6 / 10 * 6"
proof (intro conjI)
  show "decide_matrix_embed binary64 [TR, EN, EN, MIXED]
      (DEFAULTS\<lparr>MIXED_TR_WEIGHT := (9007199254740991, - 53), MIXED_EN_WEIGHT := (0, 0)\<rparr>)
     = (TR, Some EN)"
    by (simp add: decide_matrix_embed_def score_tr_def score_en_def binary_eval)
  show "of_nat (count_list [TR, EN, EN, MIXED] TR)
        + b_val (9007199254740991, - 53) * of_nat (count_list [TR, EN, EN, MIXED] MIXED)
      < of_nat (count_list [TR, EN, EN, MIXED] EN)
        + b_val (0, 0) * of_nat (count_list [TR, EN, EN, MIXED] MIXED)"
    by (simp add: b_val_def)
  show "decide_matrix_embed binary64 [EN, EN, EN, MIXED, MIXED, MIXED, MIXED, MIXED, MIXED]
      (DEFAULTS\<lparr>MIXED_TR_WEIGHT := b_lit 6 10, MIXED_EN_WEIGHT := b_lit 1 10\<rparr>)
     = (EN, Some TR)"
    by (simp add: decide_matrix_embed_def score_tr_def score_en_def binary_eval)
  show "score_tr binary64 [EN, EN, EN, MIXED, MIXED, MIXED, MIXED, MIXED, MIXED]
      (DEFAULTS\<lparr>MIXED_TR_WEIGHT := b_lit 6 10, MIXED_EN_WEIGHT := b_lit 1 10\<rparr>)
     = (2026619832316723, - 49)"
    by (simp add: score_tr_def binary_eval)
  show "score_en binary64 [EN, EN, EN, MIXED, MIXED, MIXED, MIXED, MIXED, MIXED]
      (DEFAULTS\<lparr>MIXED_TR_WEIGHT := b_lit 6 10, MIXED_EN_WEIGHT := b_lit 1 10\<rparr>)
     = b_lit 36 10"
    by (simp add: score_en_def binary_eval)
  show "(3 :: rat) + 1 / 10 * 6 \<le> 0 + 6 / 10 * 6"
    by simp
qed

text \<open>
  C3. The embedded language is \<^verbatim>\<open>"-"\<close> exactly when the labels hold neither the language
  opposite to the matrix language nor MIXED; otherwise it is the opposite language; it is
  always one of TR, EN and \<^verbatim>\<open>"-"\<close>.
\<close>

theorem embed_rule:
  assumes "decide_matrix_embed F labels cfg = (m, e)"
  shows "(e = None \<longleftrightarrow> opposite m \<notin> set labels \<and> MIXED \<notin> set labels)
       \<and> (e \<noteq> None \<longrightarrow> e = Some (opposite m))
       \<and> e \<in> {Some TR, Some EN, None}
       \<and> m \<in> {TR, EN}"
  using assms
  by (auto simp: decide_matrix_embed_def Let_def opposite_def list_ex_iff split: if_splits)

theorem embed_rule_witness:
  "decide_matrix_embed binary64 [TR, UID, NE, TR] DEFAULTS = (TR, None)
   \<and> opposite TR \<notin> set [TR, UID, NE, TR]
   \<and> decide_matrix_embed binary64 [EN, EN, MIXED] DEFAULTS = (EN, Some (opposite EN))"
proof -
  have a: "decide_matrix_embed binary64 [TR, UID, NE, TR] DEFAULTS = (TR, None)"
    by (simp add: decide_matrix_embed_def score_tr_def score_en_def DEFAULTS_def binary_eval)
  have b: "decide_matrix_embed binary64 [EN, EN, MIXED] DEFAULTS = (EN, Some TR)"
    by (simp add: decide_matrix_embed_def score_tr_def score_en_def DEFAULTS_def binary_eval)
  from embed_rule [OF a] embed_rule [OF b] a b show ?thesis
    by (simp add: opposite_def)
qed

text \<open>
  C8. Removing every NE, OTHER and UID label changes neither score, nor the matrix
  language, nor the embedded language.
\<close>

theorem unscored_labels_ignored:
  "decide_matrix_embed F (filter (\<lambda>lb. lb \<noteq> NE \<and> lb \<noteq> OTHER \<and> lb \<noteq> UID) labels) cfg
     = decide_matrix_embed F labels cfg
   \<and> score_tr F (filter (\<lambda>lb. lb \<noteq> NE \<and> lb \<noteq> OTHER \<and> lb \<noteq> UID) labels) cfg
       = score_tr F labels cfg
   \<and> score_en F (filter (\<lambda>lb. lb \<noteq> NE \<and> lb \<noteq> OTHER \<and> lb \<noteq> UID) labels) cfg
       = score_en F labels cfg"
proof -
  let ?L = "filter (\<lambda>lb. lb \<noteq> NE \<and> lb \<noteq> OTHER \<and> lb \<noteq> UID) labels"
  have t: "score_tr F ?L cfg = score_tr F labels cfg"
    by (simp add: score_tr_count count_list_filter)
  have e: "score_en F ?L cfg = score_en F labels cfg"
    by (simp add: score_en_count count_list_filter)
  have x1: "list_ex (\<lambda>lb. lb = EN \<or> lb = MIXED) ?L = list_ex (\<lambda>lb. lb = EN \<or> lb = MIXED) labels"
    by (auto simp: list_ex_iff)
  have x2: "list_ex (\<lambda>lb. lb = TR \<or> lb = MIXED) ?L = list_ex (\<lambda>lb. lb = TR \<or> lb = MIXED) labels"
    by (auto simp: list_ex_iff)
  show ?thesis
    by (simp add: decide_matrix_embed_def t e x1 x2)
qed

theorem unscored_labels_ignored_witness:
  "decide_matrix_embed binary64 [TR, EN] DEFAULTS
     = decide_matrix_embed binary64 [NE, TR, OTHER, EN, UID] DEFAULTS"
  using unscored_labels_ignored [of binary64 "[NE, TR, OTHER, EN, UID]" DEFAULTS] by simp


section \<open>The language chooser\<close>

text \<open>
  C4. \<^verbatim>\<open>_choose_label\<close> decides by the priority list of the specification, the first rule
  that matches deciding: Turkish top-1000 set, English set, full Turkish set, the language
  identifier saying EN with confidence at least \<open>FT_EN_MIN\<close>, the identifier saying TR with
  confidence at least \<open>FT_TR_MIN\<close>, and UID otherwise.
\<close>

theorem choose_label_priority:
  "choose_label self t cfg = chooseLanguage_spec self t cfg"
  by (simp add: choose_label_def chooseLanguage_spec_def split_beta Let_def)

theorem choose_label_priority_witness:
  "choose_label demo_annotator (u ''selfie'') DEFAULTS = EN
   \<and> choose_label demo_annotator (tr ''kitabI'') DEFAULTS = TR
   \<and> choose_label demo_annotator (u ''xyz'') DEFAULTS = UID"
  using choose_label_priority [of demo_annotator "u ''selfie''" DEFAULTS]
    choose_label_priority [of demo_annotator "tr ''kitabI''" DEFAULTS]
    choose_label_priority [of demo_annotator "u ''xyz''" DEFAULTS]
  by (simp add: chooseLanguage_spec_def demo_annotator_def DEFAULTS_def u_def tr_def tr_char_def)


section \<open>The apostrophe path\<close>

lemma u_nonempty: "u (c # cs) \<noteq> []"
  by (simp add: u_def)

lemma re_split_apos_nonempty: "re_split_apos s \<noteq> []"
  by (induction s) (auto split: list.splits)

lemma re_split_apos_length:
  "length (re_split_apos s) = Suc (length (filter is_apos s))"
  by (induction s) (auto split: list.splits simp: re_split_apos_nonempty)

lemma two_parts_apostrophe:
  assumes "re_split_apos token = [l, r]"
  shows "39 \<in> set token \<or> 8217 \<in> set token"
proof -
  from assms re_split_apos_length [of token] have "length (filter is_apos token) = 1"
    by simp
  then have "filter is_apos token \<noteq> []" by auto
  then obtain c where "c \<in> set token" "is_apos c"
    by (metis filter_False)
  then show ?thesis by (auto simp: is_apos_def)
qed

lemma split_two_parts:
  assumes "re_split_apos token = [l, r]" "l \<noteq> []" "r \<noteq> []"
  shows "split_mixed_apostrophe U token =
           (if str_lower U r \<in> EN_CONTRACTIONS \<or> endswith (str_lower U r) n_apos_t
            then None else Some (l, r))"
  using assms two_parts_apostrophe [OF assms(1)]
  by (simp add: split_mixed_apostrophe_def Let_def)

text \<open>
  C9. A token that splits at an apostrophe into two non-empty parts, the lower-cased right
  part being one of \<^verbatim>\<open>s\<close>, \<^verbatim>\<open>re\<close>, \<^verbatim>\<open>ve\<close>, \<^verbatim>\<open>m\<close>, \<^verbatim>\<open>ll\<close>, \<^verbatim>\<open>d\<close>, \<^verbatim>\<open>t\<close> or ending with \<^verbatim>\<open>n't\<close>,
  gives no (base, suffix) pair, and neither copy of the apostrophe block labels it: such a
  token is never MIXED by the apostrophe path.
\<close>

theorem contraction_excluded:
  assumes "re_split_apos token = [l, r]" and "l \<noteq> []" and "r \<noteq> []"
    and "str_lower U r \<in> EN_CONTRACTIONS \<or> endswith (str_lower U r) n_apos_t"
  shows "split_mixed_apostrophe U token = None
       \<and> apostrophe_exit_rows U self cfg token = None
       \<and> apostrophe_exit_labels U self cfg token = None"
  using assms
  by (simp add: split_two_parts apostrophe_exit_rows_def apostrophe_exit_labels_def)

theorem contraction_excluded_witness:
  "re_split_apos selfie_m = [u ''selfie'', u ''m'']
   \<and> str_lower basic_db (u ''m'') \<in> EN_CONTRACTIONS
   \<and> split_mixed_apostrophe basic_db selfie_m = None"
proof -
  have a: "re_split_apos selfie_m = [u ''selfie'', u ''m'']"
    by code_simp
  have b: "str_lower basic_db (u ''m'') \<in> EN_CONTRACTIONS"
    by code_simp
  from contraction_excluded [OF a u_nonempty u_nonempty disjI1 [OF b],
      of demo_annotator DEFAULTS] a b
  show ?thesis by simp
qed

text \<open>
  C5 (amended). With token rows written, for a token that is neither OTHER nor NE and
  splits at an apostrophe into two non-empty parts, the lower-cased right part not being an
  English contraction ending: if the left part's chosen language is EN and the parse of the
  right part is not empty, the row and the label are MIXED; if the left part's chosen
  language is TR, the row and the label are TR.
\<close>

theorem apostrophe_path:
  assumes "FEATURE_LANGUAGE_PER_ITEM cfg"
    and "\<not> is_other_token U tok" and "tok \<notin> ne_map"
    and "re_split_apos tok = [l, r]" and "l \<noteq> []" and "r \<noteq> []"
    and "str_lower U r \<notin> EN_CONTRACTIONS" and "\<not> endswith (str_lower U r) n_apos_t"
  shows "(choose_label self (str_lower U (clean_token U l)) cfg = EN
            \<and> has_ud (parse_tr_suffixes_full U r)
          \<longrightarrow> annotate_token U self cfg ne_map (sent_rows, labels_in_sent) tok
                = (sent_rows @ [row tok (label_str MIXED)], labels_in_sent @ [MIXED]))
       \<and> (choose_label self (str_lower U (clean_token U l)) cfg = TR
          \<longrightarrow> annotate_token U self cfg ne_map (sent_rows, labels_in_sent) tok
                = (sent_rows @ [row tok (label_str TR)], labels_in_sent @ [TR]))"
proof -
  have sp: "split_mixed_apostrophe U tok = Some (l, r)"
    using assms by (simp add: split_two_parts)
  show ?thesis
    using assms(1-3, 5, 6)
    by (simp add: annotate_token_def apostrophe_exit_rows_def sp Let_def)
qed
theorem apostrophe_path_witness:
  "annotate_token basic_db demo_annotator DEFAULTS {} ([], []) selfie_yi
     = ([row selfie_yi (label_str MIXED)], [MIXED])
   \<and> annotate_token basic_db demo_annotator DEFAULTS {} ([], []) araba_ya
     = ([row araba_ya (label_str TR)], [TR])"
proof -
  have cfg: "FEATURE_LANGUAGE_PER_ITEM DEFAULTS"
    by (simp add: DEFAULTS_def)
  have a1: "\<not> is_other_token basic_db selfie_yi"
    by code_simp
  have a2: "re_split_apos selfie_yi = [u ''selfie'', u ''yi'']"
    by code_simp
  have a3: "str_lower basic_db (u ''yi'') \<notin> EN_CONTRACTIONS"
    by code_simp
  have a4: "\<not> endswith (str_lower basic_db (u ''yi'')) n_apos_t"
    by code_simp
  have a5: "choose_label demo_annotator (str_lower basic_db (clean_token basic_db (u ''selfie'')))
              DEFAULTS = EN"
    by code_simp
  have a6: "has_ud (parse_tr_suffixes_full basic_db (u ''yi''))"
    by code_simp
  have b1: "\<not> is_other_token basic_db araba_ya"
    by code_simp
  have b2: "re_split_apos araba_ya = [u ''araba'', u ''ya'']"
    by code_simp
  have b3: "str_lower basic_db (u ''ya'') \<notin> EN_CONTRACTIONS"
    by code_simp
  have b4: "\<not> endswith (str_lower basic_db (u ''ya'')) n_apos_t"
    by code_simp
  have b5: "choose_label demo_annotator (str_lower basic_db (clean_token basic_db (u ''araba'')))
              DEFAULTS = TR"
    by code_simp
  have e: "selfie_yi \<notin> {}" "araba_ya \<notin> {}"
    by simp_all
  from apostrophe_path [OF cfg a1 e(1) a2 u_nonempty u_nonempty a3 a4,
      of demo_annotator "[]" "[]"] a5 a6
    apostrophe_path [OF cfg b1 e(2) b2 u_nonempty u_nonempty b3 b4,
      of demo_annotator "[]" "[]"] b5
  show ?thesis by simp
qed

text \<open>
  C5 as stated fails on \<^verbatim>\<open>selfie'm\<close>: the token is neither OTHER nor NE, it splits into
  \<^verbatim>\<open>selfie\<close>, chosen EN, and \<^verbatim>\<open>m\<close>, which parses to the first person singular possessive,
  and its row is UID, \<^verbatim>\<open>m\<close> being an English contraction ending.
\<close>

theorem apostrophe_contraction_counterexample:
  "\<not> is_other_token basic_db selfie_m
   \<and> selfie_m \<notin> build_ne_map basic_db (ner demo_annotator selfie_m) (tokenize basic_db selfie_m)
   \<and> re_split_apos selfie_m = [u ''selfie'', u ''m'']
   \<and> choose_label demo_annotator (str_lower basic_db (clean_token basic_db (u ''selfie'')))
        DEFAULTS = EN
   \<and> parse_tr_suffixes_full basic_db (u ''m'')
        = ([u ''m''], {''Poss=Yes'', ''Person[psor]=1'', ''Number[psor]=Sing''}, {}, {})
   \<and> annotate_token basic_db demo_annotator DEFAULTS
        (build_ne_map basic_db (ner demo_annotator selfie_m) (tokenize basic_db selfie_m))
        ([], []) selfie_m
        = ([row selfie_m (label_str UID)], [])
   \<and> annotate basic_db binary64 demo_annotator selfie_m DEFAULTS
        = join_nl [row (u ''SentenceID'') (u ''1''), row selfie_m (u ''UID''),
            row (u ''MatrixLang'') (u ''TR''), row (u ''EmbedLang'') (u ''-''), []]"
  by code_simp

section \<open>The no-apostrophe detector\<close>

text \<open>
  A string that ends with a key of some suffix table gets a tag other than the leftover
  marker: the pass of that table strips an ending, unless an earlier pass did.
\<close>

lemma first_end_None_iff:
  "first_end s (by_len_desc items) = None \<longleftrightarrow> \<not> ends_in s items"
  using set_by_len_desc [of items]
  by (auto simp: first_end_def find_None_iff ends_in_def list_ex_iff)

lemma case_pass_mono:
  "case_pass s segs ud = (s', segs', ud') \<Longrightarrow> ud \<subseteq> ud'"
proof (induction s segs ud rule: case_pass.induct)
  case (1 s segments_rev ud)
  note run = "1.prems" [unfolded case_pass.simps [of s segments_rev ud]]
  show ?case
  proof (cases "s = []")
    case True
    with run show ?thesis by simp
  next
    case False
    show ?thesis
    proof (cases "first_end s (by_len_desc (BUFFER_N_ACC @ BUFFER_N_DAT))")
      case (Some x)
      obtain e f where x: "x = (e, f)" by (cases x)
      from run False Some x
      have "case_pass (cut_last s (length e)) (segments_rev @ [keep_last s (length e)])
              (insert f ud) = (s', segs', ud')" by simp
      from "1.IH"(2) [OF False Some x [symmetric] this]
      show ?thesis by simp
    next
      case None
      note none1 = None
      show ?thesis
      proof (cases "first_end s (by_len_desc CASE_ENDINGS)")
        case (Some x)
        obtain e f where x: "x = (e, f)" by (cases x)
        from run False none1 Some x
        have "case_pass (cut_last s (length e)) (segments_rev @ [keep_last s (length e)])
                (insert f ud) = (s', segs', ud')" by simp
        from "1.IH"(1) [OF False none1 Some x [symmetric] this]
        show ?thesis by simp
      next
        case None
        with run False none1 show ?thesis by simp
      qed
    qed
  qed
qed

lemma case_pass_untagged:
  assumes "case_pass s segs {} = (s', segs', {})"
  shows "s' = s \<and> (s \<noteq> [] \<longrightarrow> \<not> ends_in s (BUFFER_N_ACC @ BUFFER_N_DAT) \<and> \<not> ends_in s CASE_ENDINGS)"
proof (cases "s = []")
  case True
  with assms show ?thesis by (simp add: case_pass.simps [of "[]"])
next
  case False
  have no: "case_pass t g (insert f {}) \<noteq> (s', segs', {})" for t g f
    using case_pass_mono [of t g "insert f {}" s' segs' "{}"] by auto
  from assms False no show ?thesis
    by (auto simp: case_pass.simps [of s] first_end_None_iff [symmetric]
        split: option.splits)
qed

lemma poss_pass_mono:
  "poss_pass s segs ud amb = (s', segs', ud', amb') \<Longrightarrow> ud \<subseteq> ud' \<and> amb \<subseteq> amb'"
proof (induction s segs ud amb rule: poss_pass.induct)
  case (1 s segments_rev ud amb)
  note run = "1.prems" [unfolded poss_pass.simps [of s segments_rev ud amb]]
  show ?case
  proof (cases "s = []")
    case True
    with run show ?thesis by simp
  next
    case False
    show ?thesis
    proof (cases "first_end s (by_len_desc POSS_LONG)")
      case (Some x)
      obtain e f where x: "x = (e, f)" by (cases x)
      from run False Some x
      have "poss_pass (cut_last s (length e)) (segments_rev @ [keep_last s (length e)])
              (ud \<union> set f) amb = (s', segs', ud', amb')" by simp
      from "1.IH"(3) [OF False Some x [symmetric] this]
      show ?thesis by simp
    next
      case None
      note none1 = None
      show ?thesis
      proof (cases "first_end s (by_len_desc POSS_SHORT)")
        case (Some x)
        obtain e f where x: "x = (e, f)" by (cases x)
        from run False none1 Some x
        have "poss_pass (cut_last s (length e)) (segments_rev @ [keep_last s (length e)])
                (ud \<union> set f) amb = (s', segs', ud', amb')" by simp
        from "1.IH"(2) [OF False none1 Some x [symmetric] this]
        show ?thesis by simp
      next
        case None
        note none2 = None
        show ?thesis
        proof (cases "find (\<lambda>e. endswith s e) BARE_VOWELS")
          case (Some e)
          from run False none1 none2 Some
          have "poss_pass (cut_last s 1) (segments_rev @ [e]) ud
                  (insert ''Amb=P3sg_or_Acc'' amb) = (s', segs', ud', amb')" by simp
          from "1.IH"(1) [OF False none1 none2 Some this]
          show ?thesis by simp
        next
          case None
          with run False none1 none2 show ?thesis by simp
        qed
      qed
    qed
  qed
qed

lemma poss_feats_nonempty:
  "\<forall>x \<in> set POSS_LONG. snd x \<noteq> []" "\<forall>x \<in> set POSS_SHORT. snd x \<noteq> []"
  by (simp_all add: POSS_LONG_def POSS_SHORT_def poss_def)

lemma poss_pass_untagged:
  assumes "poss_pass s segs {} {} = (s', segs', {}, {})"
  shows "s' = s \<and> (s \<noteq> [] \<longrightarrow> \<not> ends_in s POSS_LONG \<and> \<not> ends_in s POSS_SHORT)"
proof (cases "s = []")
  case True
  with assms show ?thesis by (simp add: poss_pass.simps [of "[]"])
next
  case False
  have no_amb: "poss_pass t g {} (insert f {}) \<noteq> (s', segs', {}, {})" for t g f
    using poss_pass_mono [of t g "{}" "insert f {}" s' segs' "{}" "{}"] by auto
  have no_ud: "poss_pass t g (set fs) {} \<noteq> (s', segs', {}, {})" if "fs \<noteq> []" for t g fs
    using poss_pass_mono [of t g "set fs" "{}" s' segs' "{}" "{}"] that by auto
  have long: "fs \<noteq> []" if "first_end s (by_len_desc POSS_LONG) = Some (e, fs)" for e fs
    using first_end_Some [OF that] poss_feats_nonempty(1) set_by_len_desc [of POSS_LONG]
    by fastforce
  have short: "fs \<noteq> []" if "first_end s (by_len_desc POSS_SHORT) = Some (e, fs)" for e fs
    using first_end_Some [OF that] poss_feats_nonempty(2) set_by_len_desc [of POSS_SHORT]
    by fastforce
  from assms False no_amb no_ud long short show ?thesis
    by (auto simp: poss_pass.simps [of s] first_end_None_iff [symmetric]
        split: option.splits)
qed

lemma plur_step_mono:
  "plur_step s segs ud = (s', segs', ud') \<Longrightarrow> ud \<subseteq> ud'"
  by (auto simp: plur_step_def split: option.splits)

lemma plur_step_untagged:
  "plur_step s segs ud = (s', segs', {}) \<Longrightarrow> s' = s \<and> \<not> ends_in s PLUR"
  by (auto simp: plur_step_def first_end_None_iff [symmetric] split: option.splits)

lemma deriv_pass_mono:
  "deriv_pass s segs deriv = (s', segs', deriv') \<Longrightarrow> deriv \<subseteq> deriv'"
proof (induction s segs deriv rule: deriv_pass.induct)
  case (1 s segments_rev deriv)
  note run = "1.prems" [unfolded deriv_pass.simps [of s segments_rev deriv]]
  show ?case
  proof (cases "s = []")
    case True
    with run show ?thesis by simp
  next
    case False
    show ?thesis
    proof (cases "first_end s (by_len_desc DERIV_SUFFIXES)")
      case (Some x)
      obtain e dtag dpos where x: "x = (e, dtag, dpos)" by (cases x)
      from run False Some x
      have "deriv_pass (cut_last s (length e)) (segments_rev @ [e])
              (insert dpos (insert dtag deriv)) = (s', segs', deriv')" by simp
      from "1.IH" [OF False Some x [symmetric] refl this]
      show ?thesis by simp
    next
      case None
      with run False show ?thesis by simp
    qed
  qed
qed

lemma deriv_tags_real: "\<forall>x \<in> set DERIV_SUFFIXES. fst (snd x) \<noteq> ''Unparsed=Leftover''"
  by (simp add: DERIV_SUFFIXES_def)

lemma deriv_pass_untagged:
  assumes "deriv_pass s segs {} = (s', segs', deriv')" and "deriv' \<subseteq> {''Unparsed=Leftover''}"
    and "s \<noteq> []"
  shows "\<not> ends_in s DERIV_SUFFIXES"
proof
  assume "ends_in s DERIV_SUFFIXES"
  then obtain x where some: "first_end s (by_len_desc DERIV_SUFFIXES) = Some x"
    using first_end_None_iff [of s DERIV_SUFFIXES] by auto
  obtain e dtag dpos where x: "x = (e, dtag, dpos)" by (cases x)
  from first_end_Some [OF some] deriv_tags_real x set_by_len_desc [of DERIV_SUFFIXES]
  have real: "dtag \<noteq> ''Unparsed=Leftover''" by fastforce
  from assms(1, 3) some x
  have "deriv_pass (cut_last s (length e)) (segs @ [e]) (insert dpos (insert dtag {}))
          = (s', segs', deriv')"
    by (simp add: deriv_pass.simps [of s])
  from deriv_pass_mono [OF this] have "dtag \<in> deriv'" by simp
  with assms(2) real show False by auto
qed

lemma ends_in_all_suffixes:
  assumes "e \<in> set all_suffixes" and "endswith s e"
  shows "ends_in s (BUFFER_N_ACC @ BUFFER_N_DAT) \<or> ends_in s CASE_ENDINGS \<or> ends_in s POSS_LONG
       \<or> ends_in s POSS_SHORT \<or> ends_in s PLUR \<or> ends_in s DERIV_SUFFIXES"
proof -
  from assms(1) have "e \<in> fst ` (set BUFFER_N_ACC \<union> set BUFFER_N_DAT) \<or> e \<in> fst ` set CASE_ENDINGS
      \<or> e \<in> fst ` set POSS_LONG \<or> e \<in> fst ` set POSS_SHORT \<or> e \<in> fst ` set PLUR
      \<or> e \<in> fst ` set DERIV_SUFFIXES"
    by (auto simp: all_suffixes_def)
  with assms(2) show ?thesis
    unfolding ends_in_def list_ex_iff set_append by blast
qed

lemma all_suffixes_nonempty:
  assumes "e \<in> set all_suffixes"
  shows "e \<noteq> []"
proof -
  have "list_all (\<lambda>e. e \<noteq> []) all_suffixes"
    by code_simp
  with assms show ?thesis
    by (simp add: list_all_iff)
qed

lemma endswith_nonempty: "endswith s e \<Longrightarrow> e \<noteq> [] \<Longrightarrow> s \<noteq> []"
  by (auto simp: endswith_def)

lemma parse_real_tag:
  assumes "e \<in> set all_suffixes" and "endswith (str_lower U suffix) e"
  shows "real_tag (parse_tr_suffixes_full U suffix)"
proof (rule ccontr)
  assume no: "\<not> real_tag (parse_tr_suffixes_full U suffix)"
  let ?s = "str_lower U suffix"
  have ne: "?s \<noteq> []"
    using assms all_suffixes_nonempty endswith_nonempty by blast
  obtain s1 g1 ud1 where p1: "case_pass ?s [] {} = (s1, g1, ud1)"
    by (cases "case_pass ?s [] {}")
  obtain s2 g2 ud2 amb where p2: "poss_pass s1 g1 ud1 {} = (s2, g2, ud2, amb)"
    by (cases "poss_pass s1 g1 ud1 {}")
  obtain s3 g3 ud3 where p3: "plur_step s2 g2 ud2 = (s3, g3, ud3)"
    by (cases "plur_step s2 g2 ud2")
  obtain s4 g4 deriv where p4: "deriv_pass s3 g3 {} = (s4, g4, deriv)"
    by (cases "deriv_pass s3 g3 {}")
  from no have u3: "ud3 = {}" and a: "amb = {}" and d: "deriv \<subseteq> {''Unparsed=Leftover''}"
    by (auto simp: real_tag_def parse_tr_suffixes_full_def p1 p2 p3 p4 split: if_splits)
  from plur_step_mono [OF p3] u3 have u2: "ud2 = {}" by simp
  from poss_pass_mono [OF p2] u2 have u1: "ud1 = {}" by simp
  from case_pass_untagged [OF p1 [unfolded u1]] ne
  have s1: "s1 = ?s" and c: "\<not> ends_in ?s (BUFFER_N_ACC @ BUFFER_N_DAT)" "\<not> ends_in ?s CASE_ENDINGS"
    by simp_all
  from poss_pass_untagged [OF p2 [unfolded u1 u2 a]] ne s1
  have s2: "s2 = ?s" and p: "\<not> ends_in ?s POSS_LONG" "\<not> ends_in ?s POSS_SHORT"
    by simp_all
  from plur_step_untagged [OF p3 [unfolded u3]] s2
  have s3: "s3 = ?s" and l: "\<not> ends_in ?s PLUR"
    by simp_all
  from deriv_pass_untagged [OF p4 [unfolded s3] d ne]
  have "\<not> ends_in ?s DERIV_SUFFIXES" .
  with c p l ends_in_all_suffixes [OF assms] show False by blast
qed

lemma endswith_self: "endswith s s"
  by (simp add: endswith_def)

lemma first_result_Some:
  "first_result body xs = Some r \<Longrightarrow> \<exists>x \<in> set xs. body x = Some r"
  by (induction xs) (auto split: option.splits)

lemma detect_candidate_Some:
  assumes "detect_candidate U self token cfg suf = Some (base, sfx)"
  shows "2 \<le> length suf \<and> endswith (str_lower U token) suf
       \<and> base = cut_last token (length suf) \<and> sfx = keep_last token (length suf)
       \<and> has_ud (parse_tr_suffixes_full U suf)"
  using assms
  by (auto simp: detect_candidate_def Let_def split: if_splits)

lemma candidates_have_real_tag:
  assumes "\<forall>suf \<in> set all_suffixes. str_lower U suf = suf" and "suf \<in> set all_suffixes"
  shows "real_tag (parse_tr_suffixes_full U suf)"
proof -
  from assms have "endswith (str_lower U suf) suf"
    by (simp add: endswith_self)
  from parse_real_tag [OF assms(2) this] show ?thesis .
qed

text \<open>
  C6. In the no-apostrophe detector a candidate suffix whose parse has the leftover marker
  and no case, possessive, plural, derivational or ambiguity tag is rejected, and the
  suffix of every accepted pair has such a tag. The candidates are the keys of the tables,
  which \<^verbatim>\<open>str.lower\<close> leaves as they are; by the lemma above each of them has such a tag
  (the test \<^verbatim>\<open>has_ud\<close> of the code counts the leftover marker too).
\<close>

theorem detect_accepts_real_tag:
  assumes "\<forall>suf \<in> set all_suffixes. str_lower U suf = suf"
  shows "(\<forall>suf \<in> set all_suffixes.
            \<not> real_tag (parse_tr_suffixes_full U suf)
            \<longrightarrow> detect_candidate U self token cfg suf = None)
       \<and> (detect_mixed_no_apostrophe U self token cfg = Some (base, sfx) \<longrightarrow>
            (\<exists>suf \<in> set all_suffixes.
               detect_candidate U self token cfg suf = Some (base, sfx)
             \<and> 2 \<le> length suf \<and> endswith (str_lower U token) suf
             \<and> base = cut_last token (length suf) \<and> sfx = keep_last token (length suf)
             \<and> real_tag (parse_tr_suffixes_full U suf)))"
proof (intro conjI ballI impI)
  fix suf
  assume "suf \<in> set all_suffixes" and "\<not> real_tag (parse_tr_suffixes_full U suf)"
  with candidates_have_real_tag [OF assms] show "detect_candidate U self token cfg suf = None"
    by blast
next
  assume det: "detect_mixed_no_apostrophe U self token cfg = Some (base, sfx)"
  then obtain suf where suf: "suf \<in> set all_suffixes"
    and c: "detect_candidate U self token cfg suf = Some (base, sfx)"
    by (auto simp: detect_mixed_no_apostrophe_def split: if_splits dest!: first_result_Some)
  from candidates_have_real_tag [OF assms suf] detect_candidate_Some [OF c] suf c
  show "\<exists>suf \<in> set all_suffixes.
               detect_candidate U self token cfg suf = Some (base, sfx)
             \<and> 2 \<le> length suf \<and> endswith (str_lower U token) suf
             \<and> base = cut_last token (length suf) \<and> sfx = keep_last token (length suf)
             \<and> real_tag (parse_tr_suffixes_full U suf)"
    by blast
qed

theorem detect_accepts_real_tag_witness:
  "detect_mixed_no_apostrophe basic_db demo_annotator (u ''meetingden'') DEFAULTS
     = Some (u ''meeting'', u ''den'')
   \<and> (\<exists>suf \<in> set all_suffixes.
         detect_candidate basic_db demo_annotator (u ''meetingden'') DEFAULTS suf
           = Some (u ''meeting'', u ''den'')
       \<and> real_tag (parse_tr_suffixes_full basic_db suf))"
proof -
  have "list_all (\<lambda>suf. str_lower basic_db suf = suf) all_suffixes"
    by code_simp
  then have low: "\<forall>suf \<in> set all_suffixes. str_lower basic_db suf = suf"
    by (simp add: list_all_iff)
  have det: "detect_mixed_no_apostrophe basic_db demo_annotator (u ''meetingden'') DEFAULTS
     = Some (u ''meeting'', u ''den'')"
    by code_simp
  from detect_accepts_real_tag [OF low, of demo_annotator "u ''meetingden''" DEFAULTS
      "u ''meeting''" "u ''den''"] det
  show ?thesis
    by blast
qed

section \<open>The order of the candidates\<close>

text \<open>
  \<^verbatim>\<open>sorted(all_suffixes, key=len, reverse=True)\<close> starts from the iteration order of a set,
  which Python leaves open. Whatever that order, the sorted list holds the same candidates
  by decreasing length, and the scan returns the same pair: an accepted candidate ends the
  lower-cased token, and two endings of one length are equal.
\<close>

lemma first_result_None_iff:
  "first_result body xs = None \<longleftrightarrow> (\<forall>x \<in> set xs. body x = None)"
  by (induction xs) (auto split: option.splits)

lemma first_result_Some_iff:
  "first_result body xs = Some r \<longleftrightarrow>
     (\<exists>ys x zs. xs = ys @ x # zs \<and> body x = Some r \<and> (\<forall>y \<in> set ys. body y = None))"
proof (induction xs)
  case Nil
  then show ?case by simp
next
  case (Cons a xs)
  show ?case
  proof (cases "body a")
    case None
    have "(\<exists>ys x zs. a # xs = ys @ x # zs \<and> body x = Some r \<and> (\<forall>y \<in> set ys. body y = None))
        \<longleftrightarrow> (\<exists>ys x zs. xs = ys @ x # zs \<and> body x = Some r \<and> (\<forall>y \<in> set ys. body y = None))"
      (is "?L \<longleftrightarrow> ?R")
    proof
      assume ?L
      then obtain ys x zs where d: "a # xs = ys @ x # zs" "body x = Some r"
        "\<forall>y \<in> set ys. body y = None" by blast
      with None obtain ys' where "ys = a # ys'"
        by (cases ys) auto
      with d show ?R by auto
    next
      assume ?R
      then obtain ys x zs where d: "xs = ys @ x # zs" "body x = Some r"
        "\<forall>y \<in> set ys. body y = None" by blast
      with None have "a # xs = (a # ys) @ x # zs \<and> body x = Some r
          \<and> (\<forall>y \<in> set (a # ys). body y = None)" by simp
      then show ?L by blast
    qed
    with Cons None show ?thesis by simp
  next
    case (Some r')
    have "(\<exists>ys x zs. a # xs = ys @ x # zs \<and> body x = Some r \<and> (\<forall>y \<in> set ys. body y = None))
        \<longleftrightarrow> r' = r" (is "?L \<longleftrightarrow> _")
    proof
      assume ?L
      then obtain ys x zs where d: "a # xs = ys @ x # zs" "body x = Some r"
        "\<forall>y \<in> set ys. body y = None" by blast
      with Some have "ys = []" by (cases ys) auto
      with d Some show "r' = r" by simp
    next
      assume "r' = r"
      with Some have "a # xs = [] @ a # xs \<and> body a = Some r \<and> (\<forall>y \<in> set []. body y = None)"
        by simp
      then show ?L by blast
    qed
    with Some show ?thesis by simp
  qed
qed

lemma endswith_same_length:
  "endswith t x \<Longrightarrow> endswith t y \<Longrightarrow> length x = length y \<Longrightarrow> x = y"
  by (simp add: endswith_def)

lemma first_accepted_longest:
  assumes "sorted_wrt (\<lambda>a b. length b \<le> length a) xs"
    and "xs = p @ x # q" and "\<forall>y \<in> set p. body y = None"
    and "y \<in> set xs" and "body y \<noteq> None"
  shows "length y \<le> length x"
proof -
  from assms(3, 5) have "y \<notin> set p" by auto
  with assms(2, 4) have "y = x \<or> y \<in> set q" by auto
  moreover from assms(1, 2) have "\<forall>z \<in> set q. length z \<le> length x"
    by (simp add: sorted_wrt_append)
  ultimately show ?thesis by auto
qed

lemma first_result_order:
  assumes sx: "sorted_wrt (\<lambda>a b. length b \<le> length a) xs"
    and sy: "sorted_wrt (\<lambda>a b. length b \<le> length a) ys"
    and same: "set xs = set ys"
    and acc: "\<And>x r. body x = Some r \<Longrightarrow> endswith t x"
  shows "first_result body xs = first_result body ys"
proof (cases "first_result body xs")
  case None
  then have "\<forall>x \<in> set ys. body x = None"
    using same by (simp add: first_result_None_iff)
  then have "first_result body ys = None"
    by (simp add: first_result_None_iff)
  with None show ?thesis by simp
next
  case (Some r)
  then obtain p x q where dx: "xs = p @ x # q" "body x = Some r" "\<forall>y \<in> set p. body y = None"
    by (auto simp: first_result_Some_iff)
  with same have "x \<in> set ys" by auto
  with dx(2) have "first_result body ys \<noteq> None"
    by (auto simp: first_result_None_iff)
  then obtain r' where "first_result body ys = Some r'" by blast
  then obtain p' y q' where dy: "ys = p' @ y # q'" "body y = Some r'"
    "\<forall>z \<in> set p'. body z = None"
    by (auto simp: first_result_Some_iff)
  from dy same have yx: "y \<in> set xs" by auto
  from dx same have xy: "x \<in> set ys" by auto
  have "length y \<le> length x"
    using first_accepted_longest [OF sx dx(1) dx(3) yx] dy(2) by simp
  moreover have "length x \<le> length y"
    using first_accepted_longest [OF sy dy(1) dy(3) xy] dx(2) by simp
  ultimately have "x = y"
    using endswith_same_length [OF acc [OF dx(2)] acc [OF dy(2)]] by simp
  with dx(2) dy(2) Some \<open>first_result body ys = Some r'\<close> show ?thesis by simp
qed

lemma sorted_by_length:
  "sorted_wrt (\<lambda>a b. length b \<le> length a) (sort_key (\<lambda>suf. - int (length suf)) xs)"
proof -
  have "sorted (map (\<lambda>suf. - int (length suf)) (sort_key (\<lambda>suf. - int (length suf)) xs))"
    by (rule sorted_sort_key)
  then show ?thesis
    by (simp add: sorted_map sorted_wrt_iff_nth_less)
qed

lemma detect_order_irrelevant:
  assumes "sorted_wrt (\<lambda>a b. length b \<le> length a) order" and "set order = set all_suffixes"
  shows "first_result (detect_candidate U self token cfg) order
       = first_result (detect_candidate U self token cfg)
           (sort_key (\<lambda>suf. - int (length suf)) all_suffixes)"
proof (rule first_result_order [OF assms(1) sorted_by_length])
  show "set order = set (sort_key (\<lambda>suf. - int (length suf)) all_suffixes)"
    using assms(2) by simp
next
  fix x r
  assume "detect_candidate U self token cfg x = Some r"
  then show "endswith (str_lower U token) x"
    by (auto simp: detect_candidate_def Let_def split: if_splits)
qed

section \<open>OTHER before NE\<close>

lemma word_token_chars:
  assumes "c \<in> set (fst (word_token U s))"
  shows "word_char U c \<or> is_apos c"
proof -
  define rest1 where "rest1 = dropWhile (word_char U) s"
  define ap where "ap = (case rest1 of [] \<Rightarrow> [] | a # r \<Rightarrow> if is_apos a then [a] else [])"
  have ap: "\<forall>a \<in> set ap. is_apos a"
    by (auto simp: ap_def split: list.splits)
  from assms have "c \<in> set (takeWhile (word_char U) s) \<or> c \<in> set ap
      \<or> c \<in> set (takeWhile (word_char U) (drop (length ap) rest1))"
    by (auto simp: word_token_def Let_def rest1_def ap_def)
  with ap show ?thesis
    by (auto dest: set_takeWhileD)
qed

lemma findall_tokens_chars:
  "tok \<in> set (findall_tokens U lone s) \<Longrightarrow> \<forall>c \<in> set tok. word_char U c \<or> is_apos c"
proof (induction U lone s rule: findall_tokens.induct)
  case (1 U lone)
  then show ?case by (simp add: findall_tokens.simps)
next
  case (2 U lone c cs)
  show ?case
  proof (cases "word_char U c")
    case True
    with "2.prems" have "tok = fst (word_token U (c # cs))
        \<or> tok \<in> set (findall_tokens U lone (snd (word_token U (c # cs))))"
      by (simp add: findall_tokens.simps)
    with "2.IH"(1) [OF True] show ?thesis
      by (auto dest: word_token_chars)
  next
    case False
    show ?thesis
    proof (cases "lone \<and> is_apos c")
      case True
      with "2.prems" False have "tok = [c] \<or> tok \<in> set (findall_tokens U lone cs)"
        by (simp add: findall_tokens.simps)
      with "2.IH"(2) [OF False True] True show ?thesis by auto
    next
      case nolone: False
      with "2.prems" False have "tok \<in> set (findall_tokens U lone cs)"
        by (auto simp: findall_tokens.simps)
      with "2.IH"(3) [OF False nolone] show ?thesis by simp
    qed
  qed
qed

lemma tokenize_clean:
  "tok \<in> set (tokenize U line) \<Longrightarrow> clean_token U tok = tok"
  unfolding tokenize_def clean_token_def
  by (rule filter_True) (use findall_tokens_chars in blast)

lemma row_inject: "row tok a = row tok b \<longleftrightarrow> a = b"
  by (simp add: row_def)

lemma label_str_inject: "label_str a = label_str b \<longleftrightarrow> a = b"
  by (cases a; cases b; simp add: label_str_def u_def)

lemma choose_label_range: "choose_label self t cfg \<in> {TR, EN, UID}"
  by (simp add: choose_label_def Let_def split_beta)

lemma apostrophe_exit_rows_range:
  "apostrophe_exit_rows U self cfg tok = Some l \<Longrightarrow> l = MIXED \<or> l = TR"
  by (auto simp: apostrophe_exit_rows_def Let_def split: option.splits if_splits)

lemma annotate_token_language:
  assumes "FEATURE_LANGUAGE_PER_ITEM cfg" and "\<not> is_other_token U tok" and "tok \<notin> ne_map"
  shows "\<exists>lb. (lb = TR \<or> lb = EN \<or> lb = MIXED \<or> lb = UID)
          \<and> fst (annotate_token U self cfg ne_map (sent_rows, labels_in_sent) tok)
              = sent_rows @ [row tok (label_str lb)]"
proof (cases "apostrophe_exit_rows U self cfg tok")
  case (Some l)
  with apostrophe_exit_rows_range [OF Some] assms show ?thesis
    by (auto simp: annotate_token_def Let_def)
next
  case None
  let ?lb = "choose_label self (str_lower U (clean_token U tok)) cfg"
  show ?thesis
  proof (cases "no_apostrophe_exit U self cfg tok ?lb")
    case True
    with None assms show ?thesis
      by (auto simp: annotate_token_def Let_def)
  next
    case False
    with None assms choose_label_range [of self "str_lower U (clean_token U tok)" cfg]
    show ?thesis
      by (auto simp: annotate_token_def Let_def)
  qed
qed

text \<open>
  C7. With token rows written: a token is OTHER exactly when it is empty, matches the URL,
  mention or hashtag pattern, is numeric, holds an emoji code point or has no word character
  but the underscore, and then its row is OTHER whatever the named-entity set; the row of a
  token of the line is NE exactly when the token is not OTHER and its cleaned form is in the
  named-entity set of the sentence. (The code looks the token itself up in the set; a token
  of the tokenizer is its own cleaned form.)
\<close>

theorem other_before_ne:
  assumes "FEATURE_LANGUAGE_PER_ITEM cfg"
  shows "(is_other_token U tok \<longleftrightarrow>
            tok = [] \<or> URL_RE_match U tok \<or> sigil_match U 64 tok \<or> sigil_match U 35 tok
            \<or> NUMERIC_RE_match U tok \<or> EMOJI_RE_search tok \<or> nonword_fullmatch U tok)
       \<and> (is_other_token U tok \<longrightarrow>
            annotate_token U self cfg ne_map (sent_rows, labels_in_sent) tok
              = (sent_rows @ [row tok (label_str OTHER)], labels_in_sent))
       \<and> (tok \<in> set (tokenize U line) \<longrightarrow>
            (\<not> is_other_token U tok \<and> clean_token U tok \<in> ne_map \<longrightarrow>
               annotate_token U self cfg ne_map (sent_rows, labels_in_sent) tok
                 = (sent_rows @ [row tok (label_str NE)], labels_in_sent @ [NE]))
          \<and> (fst (annotate_token U self cfg ne_map (sent_rows, labels_in_sent) tok)
                 = sent_rows @ [row tok (label_str NE)]
               \<longleftrightarrow> \<not> is_other_token U tok \<and> clean_token U tok \<in> ne_map))"
proof -
  have a: "is_other_token U tok \<longleftrightarrow>
            tok = [] \<or> URL_RE_match U tok \<or> sigil_match U 64 tok \<or> sigil_match U 35 tok
            \<or> NUMERIC_RE_match U tok \<or> EMOJI_RE_search tok \<or> nonword_fullmatch U tok"
    by (simp add: is_other_token_def)
  have b: "annotate_token U self cfg ne_map (sent_rows, labels_in_sent) tok
              = (sent_rows @ [row tok (label_str OTHER)], labels_in_sent)"
    if "is_other_token U tok"
    using that assms by (simp add: annotate_token_def)
  have c: "annotate_token U self cfg ne_map (sent_rows, labels_in_sent) tok
              = (sent_rows @ [row tok (label_str NE)], labels_in_sent @ [NE])"
    if "tok \<in> set (tokenize U line)" "\<not> is_other_token U tok" "clean_token U tok \<in> ne_map"
    using that assms tokenize_clean [OF that(1)] by (simp add: annotate_token_def)
  have d: "fst (annotate_token U self cfg ne_map (sent_rows, labels_in_sent) tok)
              \<noteq> sent_rows @ [row tok (label_str NE)]"
    if "tok \<in> set (tokenize U line)" "is_other_token U tok \<or> clean_token U tok \<notin> ne_map"
  proof (cases "is_other_token U tok")
    case True
    then show ?thesis by (simp add: b row_inject label_str_inject)
  next
    case False
    with that tokenize_clean [OF that(1)] have "tok \<notin> ne_map" by simp
    from annotate_token_language [OF assms False this, of self sent_rows labels_in_sent]
    show ?thesis by (auto simp: row_inject label_str_inject)
  qed
  from a b c d show ?thesis
    by (metis fst_conv)
qed

theorem other_before_ne_witness:
  "annotate_token basic_db demo_annotator DEFAULTS {u ''Ali'', u ''2024''} ([], []) (u ''2024'')
     = ([row (u ''2024'') (label_str OTHER)], [])
   \<and> annotate_token basic_db demo_annotator DEFAULTS {u ''Ali'', u ''2024''} ([], []) (u ''Ali'')
     = ([row (u ''Ali'') (label_str NE)], [NE])
   \<and> annotate_token basic_db demo_annotator DEFAULTS {} ([], []) []
     = ([row [] (label_str OTHER)], [])
   \<and> annotate_token basic_db demo_annotator DEFAULTS {} ([], []) (u ''#kodland'')
     = ([row (u ''#kodland'') (label_str OTHER)], [])"
proof -
  have cfg: "FEATURE_LANGUAGE_PER_ITEM DEFAULTS"
    by (simp add: DEFAULTS_def)
  have t2: "u ''Ali'' \<in> set (tokenize basic_db (u ''Ali 2024 selfie''))"
    by code_simp
  have o1: "is_other_token basic_db (u ''2024'')"
    by code_simp
  have o2: "\<not> is_other_token basic_db (u ''Ali'')"
    by code_simp
  have o3: "is_other_token basic_db []"
    by code_simp
  have o4: "is_other_token basic_db (u ''#kodland'')"
    by code_simp
  have n2: "clean_token basic_db (u ''Ali'') \<in> {u ''Ali'', u ''2024''}"
    by code_simp
  have r1: "annotate_token basic_db demo_annotator DEFAULTS {u ''Ali'', u ''2024''} ([], [])
              (u ''2024'') = ([row (u ''2024'') (label_str OTHER)], [])"
    using other_before_ne [OF cfg, of basic_db "u ''2024''" demo_annotator
        "{u ''Ali'', u ''2024''}" "[]" "[]", unfolded append_Nil] o1
    by blast
  have r2: "annotate_token basic_db demo_annotator DEFAULTS {u ''Ali'', u ''2024''} ([], [])
              (u ''Ali'') = ([row (u ''Ali'') (label_str NE)], [NE])"
    using other_before_ne [OF cfg, of basic_db "u ''Ali''" demo_annotator
        "{u ''Ali'', u ''2024''}" "[]" "[]" "u ''Ali 2024 selfie''", unfolded append_Nil]
      t2 o2 n2
    by blast
  have r3: "annotate_token basic_db demo_annotator DEFAULTS {} ([], []) []
              = ([row [] (label_str OTHER)], [])"
    using other_before_ne [OF cfg, of basic_db "[]" demo_annotator "{}" "[]" "[]",
        unfolded append_Nil] o3
    by blast
  have r4: "annotate_token basic_db demo_annotator DEFAULTS {} ([], []) (u ''#kodland'')
              = ([row (u ''#kodland'') (label_str OTHER)], [])"
    using other_before_ne [OF cfg, of basic_db "u ''#kodland''" demo_annotator "{}" "[]" "[]",
        unfolded append_Nil] o4
    by blast
  from r1 r2 r3 r4 show ?thesis
    by (intro conjI)
qed

section \<open>Configuration keys that are never read\<close>

lemma override_unused_fields:
  "FEATURE_LANGUAGE_PER_ITEM (override_unused cfg a b c) = FEATURE_LANGUAGE_PER_ITEM cfg"
  "FEATURE_MATRIX_LANGUAGE (override_unused cfg a b c) = FEATURE_MATRIX_LANGUAGE cfg"
  "FEATURE_EMBEDDED_LANGUAGE (override_unused cfg a b c) = FEATURE_EMBEDDED_LANGUAGE cfg"
  "FEATURE_SENTENCE_ID (override_unused cfg a b c) = FEATURE_SENTENCE_ID cfg"
  "NER_ENABLED (override_unused cfg a b c) = NER_ENABLED cfg"
  "FT_EN_MIN (override_unused cfg a b c) = FT_EN_MIN cfg"
  "FT_TR_MIN (override_unused cfg a b c) = FT_TR_MIN cfg"
  "MIXED_STRICT (override_unused cfg a b c) = MIXED_STRICT cfg"
  "MIXED_TR_WEIGHT (override_unused cfg a b c) = MIXED_TR_WEIGHT cfg"
  "MIXED_EN_WEIGHT (override_unused cfg a b c) = MIXED_EN_WEIGHT cfg"
  by (simp_all add: override_unused_def)

lemma unused_choose_label:
  "choose_label self t (override_unused cfg a b c) = choose_label self t cfg"
  by (simp add: choose_label_def override_unused_fields split_beta cong: if_cong)

lemma unused_detect_candidate:
  "detect_candidate U self token (override_unused cfg a b c) = detect_candidate U self token cfg"
  by (rule ext)
    (simp add: detect_candidate_def override_unused_fields Let_def split_beta cong: if_cong)

lemma unused_detect:
  "detect_mixed_no_apostrophe U self token (override_unused cfg a b c)
     = detect_mixed_no_apostrophe U self token cfg"
  by (simp add: detect_mixed_no_apostrophe_def unused_detect_candidate)

lemma unused_exits:
  "apostrophe_exit_rows U self (override_unused cfg a b c) tok = apostrophe_exit_rows U self cfg tok"
  "apostrophe_exit_labels U self (override_unused cfg a b c) tok
     = apostrophe_exit_labels U self cfg tok"
  "no_apostrophe_exit U self (override_unused cfg a b c) tok lb = no_apostrophe_exit U self cfg tok lb"
  by (simp_all add: apostrophe_exit_rows_def apostrophe_exit_labels_def no_apostrophe_exit_def
      unused_choose_label unused_detect Let_def split: option.split)

lemma unused_annotate_token:
  "annotate_token U self (override_unused cfg a b c) = annotate_token U self cfg"
  by (intro ext)
    (simp add: annotate_token_def unused_choose_label unused_exits override_unused_fields
      Let_def split_beta cong: if_cong option.case_cong)

lemma unused_decide:
  "decide_matrix_embed F labels (override_unused cfg a b c) = decide_matrix_embed F labels cfg"
  by (simp add: decide_matrix_embed_def score_tr_def score_en_def override_unused_fields
      cong: if_cong)

lemma unused_annotate_line:
  "annotate_line U F self (override_unused cfg a b c) = annotate_line U F self cfg"
  by (intro ext)
    (simp add: annotate_line_def unused_annotate_token unused_decide override_unused_fields
      Let_def split_beta cong: if_cong)

lemma unused_annotate:
  "annotate U F self text (override_unused cfg a b c) = annotate U F self text cfg"
  by (simp add: annotate_def unused_annotate_line)

text \<open>
  C10. Two configurations that agree on every key but \<^verbatim>\<open>EMIT_MIXED_SUFFIX\<close>,
  \<^verbatim>\<open>EMBED_MIN_COUNT\<close> and \<^verbatim>\<open>EMBED_MIN_RATIO\<close> give the same output on every text.
\<close>

theorem unused_keys_no_effect:
  assumes "FEATURE_LANGUAGE_PER_ITEM c1 = FEATURE_LANGUAGE_PER_ITEM c2"
    and "FEATURE_MATRIX_LANGUAGE c1 = FEATURE_MATRIX_LANGUAGE c2"
    and "FEATURE_EMBEDDED_LANGUAGE c1 = FEATURE_EMBEDDED_LANGUAGE c2"
    and "FEATURE_SENTENCE_ID c1 = FEATURE_SENTENCE_ID c2"
    and "NER_ENABLED c1 = NER_ENABLED c2"
    and "FT_EN_MIN c1 = FT_EN_MIN c2"
    and "FT_TR_MIN c1 = FT_TR_MIN c2"
    and "MIXED_STRICT c1 = MIXED_STRICT c2"
    and "MIXED_TR_WEIGHT c1 = MIXED_TR_WEIGHT c2"
    and "MIXED_EN_WEIGHT c1 = MIXED_EN_WEIGHT c2"
  shows "annotate U F self text c1 = annotate U F self text c2"
proof -
  have "c2 = override_unused c1 (EMIT_MIXED_SUFFIX c2) (EMBED_MIN_COUNT c2) (EMBED_MIN_RATIO c2)"
    by (rule config.equality) (simp_all add: override_unused_def assms)
  then show ?thesis
    by (metis unused_annotate)
qed
theorem unused_keys_no_effect_witness:
  "annotate basic_db binary64 demo_annotator (u ''Bu meetingden'') DEFAULTS
     = annotate basic_db binary64 demo_annotator (u ''Bu meetingden'')
         (DEFAULTS\<lparr>EMIT_MIXED_SUFFIX := True, EMBED_MIN_COUNT := 7, EMBED_MIN_RATIO := 0.9\<rparr>)"
  by (rule unused_keys_no_effect) (simp_all add: DEFAULTS_def)

end
